theory Spec2Isabelle
  imports Main "HOL-Library.Multiset"
begin

section \<open>The rerun dialog of ci-check-run-rerun-dialog.tsx\<close>

text \<open>
  The theory embeds \<^verbatim>\<open>src/app/src/ui/check-runs/ci-check-run-rerun-dialog.tsx\<close>:
  the class \<^verbatim>\<open>CICheckRunRerunDialog\<close> with its two asynchronous methods
  \<^verbatim>\<open>determineRerunnability\<close> and \<^verbatim>\<open>onSubmit\<close> and the part of
  \<^verbatim>\<open>render\<close> that gates the OK button.
\<close>

subsection \<open>Data imported by the source\<close>

text \<open>
  Modelled from the spec: the enums \<^verbatim>\<open>APICheckConclusion\<close> and
  \<^verbatim>\<open>APICheckStatus\<close> of \<^verbatim>\<open>lib/api\<close> are imported by the source and
  declared outside it. The source names only \<^verbatim>\<open>APICheckConclusion.Failure\<close> and
  \<^verbatim>\<open>APICheckStatus.Completed\<close>; the spec's data model adds success, neutral and
  "in progress".
\<close>

datatype APICheckConclusion =
  ActionRequired | Canceled | TimedOut | Failure | Neutral | Success | Skipped | Stale

datatype APICheckStatus = Queued | InProgress | Completed

text \<open>
  \<^verbatim>\<open>IAPICheckSuite\<close> (of \<^verbatim>\<open>lib/api\<close>) with the four fields the source reads:
  \<^verbatim>\<open>cs.id\<close>, \<^verbatim>\<open>cs.rerequestable\<close>, \<^verbatim>\<open>cs.created_at\<close> (a date string)
  and \<^verbatim>\<open>cs.status\<close>. The field \<^verbatim>\<open>id\<close> is written \<open>id_cs\<close>.
\<close>

record IAPICheckSuite =
  id_cs :: int
  rerequestable :: bool
  created_at :: string
  status :: APICheckStatus

text \<open>
  \<^verbatim>\<open>IRefCheck\<close> (of \<^verbatim>\<open>lib/ci-checks/ci-checks\<close>) with the two fields the source
  reads, \<^verbatim>\<open>cr.conclusion\<close> (nullable) and \<^verbatim>\<open>cr.checkSuiteId\<close> (nullable), and
  the run's own id, written \<open>id_cr\<close>, which tells two runs apart.
\<close>

record IRefCheck =
  id_cr :: int
  conclusion :: "APICheckConclusion option"
  checkSuiteId :: "int option"

subsection \<open>Promises\<close>

text \<open>
  How a promise ends: fulfilled with a value, rejected, or never settled. An
  \<^verbatim>\<open>await\<close> on a fulfilled promise resumes with the value; on a rejected one it
  throws, which in both asynchronous methods of the source (neither has a
  \<^verbatim>\<open>try\<close>) ends the method; on a pending one the method never resumes.
\<close>

datatype 'a promise = Fulfilled 'a | Rejected | Pending

text \<open>
  \<^verbatim>\<open>Promise.all\<close>: rejected as soon as one member is rejected, fulfilled with the
  values in the order of the members once all are fulfilled, pending otherwise.
\<close>

fun Promise_all :: "'a promise list \<Rightarrow> 'a list promise" where
  "Promise_all [] = Fulfilled []"
| "Promise_all (Rejected # ps) = Rejected"
| "Promise_all (Fulfilled v # ps) =
     (case Promise_all ps of
        Fulfilled vs \<Rightarrow> Fulfilled (v # vs)
      | Rejected \<Rightarrow> Rejected
      | Pending \<Rightarrow> Pending)"
| "Promise_all (Pending # ps) =
     (case Promise_all ps of
        Rejected \<Rightarrow> Rejected
      | _ \<Rightarrow> Pending)"

text \<open>
  \<^verbatim>\<open>Promise.all\<close> as the event loop runs it: the members settle one at a time, in
  the order \<open>order\<close> (indices into the member list). A fulfilled value is stored in the
  slot of its member, the first rejection rejects the join, and the join is fulfilled with
  the slots once every slot is filled. A member that is pending never settles.
\<close>

fun Promise_all_settling :: "'a promise list \<Rightarrow> nat list \<Rightarrow> 'a option list \<Rightarrow> 'a list promise" where
  "Promise_all_settling ps [] slots =
     (case those slots of Some vs \<Rightarrow> Fulfilled vs | None \<Rightarrow> Pending)"
| "Promise_all_settling ps (k # order) slots =
     (if k < length ps then
        (case ps ! k of
           Fulfilled v \<Rightarrow> Promise_all_settling ps order (slots[k := Some v])
         | Rejected \<Rightarrow> Rejected
         | Pending \<Rightarrow> Promise_all_settling ps order slots)
      else Promise_all_settling ps order slots)"

subsection \<open>What the component is given\<close>

text \<open>
  The runtime the component runs in: how the promise of
  \<^verbatim>\<open>dispatcher.fetchCheckSuite(repository, id)\<close> ends, the clock
  \<^verbatim>\<open>Date.now()\<close> in milliseconds, and \<^verbatim>\<open>Date.parse\<close>, whose result is a
  whole number of milliseconds or NaN (\<open>None\<close>). The loop that reads the clock
  (lines 106 to 119) has no \<^verbatim>\<open>await\<close> inside, so one reading stands for the
  whole pass.
\<close>

record runtime =
  fetchCheckSuite :: "string \<Rightarrow> int \<Rightarrow> IAPICheckSuite option promise"
  Date_now :: int
  Date_parse :: "string \<Rightarrow> int option"

text \<open>
  \<^verbatim>\<open>ICICheckRunRerunDialogProps\<close>. The dispatcher and \<^verbatim>\<open>onDismissed\<close> are
  not data: the calls made on them are recorded as effects further down. The repository
  is only ever handed on, so a name stands for it.
\<close>

record ICICheckRunRerunDialogProps =
  repository :: string
  checkRuns :: "IRefCheck list"
  prRef :: string
  failedOnly :: bool

record ICICheckRunRerunDialogState =
  loadingCheckSuites :: bool
  loadingRerun :: bool
  rerunnable :: "IRefCheck list"
  nonRerunnable :: "IRefCheck list"

text \<open>The state the constructor sets (lines 56 to 61).\<close>

definition initialState :: ICICheckRunRerunDialogState where
  "initialState =
     \<lparr>loadingCheckSuites = True, loadingRerun = False, rerunnable = [], nonRerunnable = []\<rparr>"

subsection \<open>offsetFromNow\<close>

text \<open>
  Modelled from the spec: \<^verbatim>\<open>offsetFromNow\<close> of \<^verbatim>\<open>lib/offset-from\<close> is imported
  by the source and defined outside it. The spec reads
  \<^verbatim>\<open>offsetFromNow(-30, 'days')\<close> as "now minus 30 days": the clock plus the
  offset in milliseconds.
\<close>

datatype TimeUnit = Seconds | Minutes | Hours | Days

fun toMilliseconds :: "int \<Rightarrow> TimeUnit \<Rightarrow> int" where
  "toMilliseconds v Seconds = v * 1000"
| "toMilliseconds v Minutes = v * 1000 * 60"
| "toMilliseconds v Hours = v * 1000 * 60 * 60"
| "toMilliseconds v Days = v * 1000 * 60 * 60 * 24"

definition offsetFromNow :: "runtime \<Rightarrow> int \<Rightarrow> TimeUnit \<Rightarrow> int" where
  "offsetFromNow rt v u = Date_now rt + toMilliseconds v u"

subsection \<open>determineRerunnability (lines 82 to 134)\<close>

text \<open>Lines 83 to 87.\<close>

definition checkRunsToConsider :: "ICICheckRunRerunDialogProps \<Rightarrow> IRefCheck list" where
  "checkRunsToConsider p =
     (if failedOnly p
      then filter (\<lambda>cr. conclusion cr = Some Failure) (checkRuns p)
      else checkRuns p)"

text \<open>
  A JavaScript \<^verbatim>\<open>Set\<close> built from an array keeps each value once, in the order of
  first insertion, and is iterated in that order.
\<close>

definition Set_add :: "'a list \<Rightarrow> 'a \<Rightarrow> 'a list" where
  "Set_add s x = (if x \<in> set s then s else s @ [x])"

definition new_Set :: "'a list \<Rightarrow> 'a list" where
  "new_Set xs = foldl Set_add [] xs"

text \<open>Lines 90 to 92.\<close>

definition checkSuiteIds :: "ICICheckRunRerunDialogProps \<Rightarrow> int option list" where
  "checkSuiteIds p = new_Set (map checkSuiteId (checkRunsToConsider p))"

text \<open>
  Lines 96 to 103: the ids for which \<^verbatim>\<open>fetchCheckSuite\<close> is called, in order
  (\<^verbatim>\<open>null\<close> is skipped), and the promises pushed.
\<close>

fun fetchedIds :: "int option list \<Rightarrow> int list" where
  "fetchedIds [] = []"
| "fetchedIds (None # ids) = fetchedIds ids"
| "fetchedIds (Some i # ids) = i # fetchedIds ids"

definition checkSuitesPromises ::
  "runtime \<Rightarrow> ICICheckRunRerunDialogProps \<Rightarrow> IAPICheckSuite option promise list" where
  "checkSuitesPromises rt p =
     map (fetchCheckSuite rt (repository p)) (fetchedIds (checkSuiteIds p))"

text \<open>
  \<^verbatim>\<open>createdAt > offsetFromNow(-30, 'days')\<close>: a comparison with NaN is false.
\<close>

fun js_gt :: "int option \<Rightarrow> int \<Rightarrow> bool" where
  "js_gt None y = False"
| "js_gt (Some x) y = (x > y)"

text \<open>
  Lines 105 to 119: the loop over the fetched suites; \<^verbatim>\<open>push\<close> appends, so the
  ids come out in the order of the suites.
\<close>

fun rerequestableCheckSuiteIds :: "runtime \<Rightarrow> IAPICheckSuite option list \<Rightarrow> int list" where
  "rerequestableCheckSuiteIds rt [] = []"
| "rerequestableCheckSuiteIds rt (None # css) = rerequestableCheckSuiteIds rt css"
| "rerequestableCheckSuiteIds rt (Some cs # css) =
     (let createdAt = Date_parse rt (created_at cs) in
      if rerequestable cs \<and>
         js_gt createdAt (offsetFromNow rt (- 30) Days) \<and>
         status cs = Completed
      then id_cs cs # rerequestableCheckSuiteIds rt css
      else rerequestableCheckSuiteIds rt css)"

text \<open>
  \<^verbatim>\<open>ids.includes(cr.checkSuiteId)\<close> behind the null test of lines 123 and 128.
\<close>

fun includes_id :: "int list \<Rightarrow> int option \<Rightarrow> bool" where
  "includes_id ids None = False"
| "includes_id ids (Some i) = (i \<in> set ids)"

text \<open>Lines 121 to 125.\<close>

definition rerunnableOf ::
  "ICICheckRunRerunDialogProps \<Rightarrow> int list \<Rightarrow> IRefCheck list" where
  "rerunnableOf p ids =
     filter (\<lambda>cr. checkSuiteId cr \<noteq> None \<and> includes_id ids (checkSuiteId cr))
       (checkRunsToConsider p)"

text \<open>Lines 126 to 131.\<close>

definition nonRerunnableOf ::
  "ICICheckRunRerunDialogProps \<Rightarrow> int list \<Rightarrow> IRefCheck list" where
  "nonRerunnableOf p ids =
     filter (\<lambda>cr. checkSuiteId cr = None \<or>
                  \<not> includes_id ids (checkSuiteId cr) \<or>
                  (failedOnly p \<and> conclusion cr = Some Failure))
       (checkRuns p)"

text \<open>
  Lines 105 to 133 once \<^verbatim>\<open>await Promise.all\<close> has resumed with the suites
  \<open>css\<close>: the state that \<^verbatim>\<open>setState\<close> merges into the state \<open>s\<close>.
\<close>

definition classify ::
  "runtime \<Rightarrow> ICICheckRunRerunDialogProps \<Rightarrow> IAPICheckSuite option list \<Rightarrow>
   ICICheckRunRerunDialogState \<Rightarrow> ICICheckRunRerunDialogState" where
  "classify rt p css s =
     (let ids = rerequestableCheckSuiteIds rt css in
      s\<lparr>loadingCheckSuites := False,
        rerunnable := rerunnableOf p ids,
        nonRerunnable := nonRerunnableOf p ids\<rparr>)"

text \<open>
  The whole method: the state it leaves when the joined fetches are fulfilled; when the
  join is rejected the method throws at line 106 and when it stays pending the method
  never resumes, and in both cases \<^verbatim>\<open>setState\<close> is not reached.
\<close>

definition determineRerunnability ::
  "runtime \<Rightarrow> ICICheckRunRerunDialogProps \<Rightarrow> ICICheckRunRerunDialogState \<Rightarrow>
   ICICheckRunRerunDialogState promise" where
  "determineRerunnability rt p s =
     (case Promise_all (checkSuitesPromises rt p) of
        Fulfilled css \<Rightarrow> Fulfilled (classify rt p css s)
      | Rejected \<Rightarrow> Rejected
      | Pending \<Rightarrow> Pending)"

subsection \<open>render (lines 194 to 220)\<close>

text \<open>
  What \<^verbatim>\<open>render\<close> hands to the dialog and to its button group, without the texts:
  \<^verbatim>\<open>loading\<close> of line 206 and \<^verbatim>\<open>okButtonDisabled\<close> of line 215.
\<close>

record DialogView =
  loading :: bool
  okButtonDisabled :: bool

definition render :: "ICICheckRunRerunDialogState \<Rightarrow> DialogView" where
  "render s =
     \<lparr>loading = (loadingCheckSuites s \<or> loadingRerun s),
      okButtonDisabled = (length (rerunnable s) = 0)\<rparr>"

subsection \<open>The component instance and its event loop\<close>

text \<open>
  The calls the component makes on its collaborators: on the dispatcher, on
  \<^verbatim>\<open>props.onDismissed\<close>, and \<^verbatim>\<open>this.setState\<close>, which is recorded with the state
  it asks for.
\<close>

datatype call =
    Call_fetchCheckSuite string int
  | Call_setState ICICheckRunRerunDialogState
  | Call_rerequestCheckSuites string "IRefCheck list" bool
  | Call_manualRefreshSubscription string string "IRefCheck list"
  | Call_recordRerunChecks
  | Call_onDismissed

text \<open>
  An instance of the component: \<^verbatim>\<open>this.state\<close>, the calls made so far (oldest
  first), and where its asynchronous methods are suspended: \<open>classifying\<close> while
  \<^verbatim>\<open>determineRerunnability\<close> waits at line 106, and the numbers of activations of
  \<^verbatim>\<open>onSubmit\<close> that wait at line 68 and at line 73. The props are those the instance
  was constructed with. \<open>mounted\<close> says whether React still has the instance mounted:
  it mounts the instance it constructs, and once the caller has dismissed the dialog it
  unmounts it. React applies \<^verbatim>\<open>setState\<close> to a mounted instance and drops it on
  an unmounted one, whose \<^verbatim>\<open>this.state\<close> stays as it was.
\<close>

record component =
  this_state :: ICICheckRunRerunDialogState
  calls :: "call list"
  classifying :: bool
  awaitingRerequest :: nat
  awaitingRefresh :: nat
  mounted :: bool

text \<open>
  The constructor (lines 54 to 63): the initial state, and
  \<^verbatim>\<open>determineRerunnability\<close> up to its \<^verbatim>\<open>await\<close>, which calls
  \<^verbatim>\<open>fetchCheckSuite\<close> once for each id of \<open>fetchedIds\<close>.
\<close>

definition construct :: "ICICheckRunRerunDialogProps \<Rightarrow> component" where
  "construct p =
     \<lparr>this_state = initialState,
      calls = map (Call_fetchCheckSuite (repository p)) (fetchedIds (checkSuiteIds p)),
      classifying = True,
      awaitingRerequest = 0,
      awaitingRefresh = 0,
      mounted = True\<rparr>"

text \<open>
  \<^verbatim>\<open>onSubmit\<close> (lines 65 to 80) in its three runs: up to the first
  \<^verbatim>\<open>await\<close> (lines 66 to 72), from there to the second (lines 73 to 77), and the
  rest (lines 78 and 79). \<^verbatim>\<open>this.state.rerunnable\<close> is read when the run reaches it.
  The first run is started by the OK button, so on a mounted instance, and its
  \<^verbatim>\<open>setState\<close> is applied. \<^verbatim>\<open>props.onDismissed\<close> is the caller's: with it
  the caller dismisses the dialog, which tears the instance down in the same turn.
\<close>

definition onSubmit_start :: "ICICheckRunRerunDialogProps \<Rightarrow> component \<Rightarrow> component" where
  "onSubmit_start p i =
     (let s' = (this_state i)\<lparr>loadingRerun := True\<rparr> in
      i\<lparr>this_state := s',
        calls := calls i @
          [Call_setState s',
           Call_rerequestCheckSuites (repository p) (rerunnable (this_state i)) (failedOnly p)],
        awaitingRerequest := awaitingRerequest i + 1\<rparr>)"

definition onSubmit_afterRerequest :: "ICICheckRunRerunDialogProps \<Rightarrow> component \<Rightarrow> component" where
  "onSubmit_afterRerequest p i =
     i\<lparr>calls := calls i @
          [Call_manualRefreshSubscription (repository p) (prRef p) (rerunnable (this_state i))],
       awaitingRerequest := awaitingRerequest i - 1,
       awaitingRefresh := awaitingRefresh i + 1\<rparr>"

definition onSubmit_afterRefresh :: "component \<Rightarrow> component" where
  "onSubmit_afterRefresh i =
     i\<lparr>calls := calls i @ [Call_recordRerunChecks, Call_onDismissed],
       awaitingRefresh := awaitingRefresh i - 1,
       mounted := False\<rparr>"

text \<open>
  What can happen to an instance. \<open>FetchesSettled\<close>: the join of line 106 settles; the
  method resumes whether the instance is still mounted or not, and line 133 calls
  \<^verbatim>\<open>setState\<close> with no test before it. \<open>OkClicked\<close>: the OK button submits the
  form and the dialog calls \<^verbatim>\<open>onSubmit\<close>; a disabled button does not submit, and an
  unmounted dialog has no button. \<open>RerequestResolved\<close> and \<open>RerequestRejected\<close>: the
  promise awaited at line 68 settles; \<open>RefreshResolved\<close> and \<open>RefreshRejected\<close>: the
  one awaited at line 73. \<open>Dismiss\<close>: the dialog calls \<^verbatim>\<open>props.onDismissed\<close>
  (line 205), as it does when the user cancels or closes it, and the instance is torn
  down.
\<close>

datatype event =
    FetchesSettled
  | OkClicked
  | RerequestResolved
  | RerequestRejected
  | RefreshResolved
  | RefreshRejected
  | Dismiss

text \<open>One turn of the event loop; \<open>None\<close> when the event cannot happen.\<close>

fun step ::
  "runtime \<Rightarrow> ICICheckRunRerunDialogProps \<Rightarrow> event \<Rightarrow> component \<Rightarrow> component option" where
  "step rt p FetchesSettled i =
     (if classifying i then
        (case determineRerunnability rt p (this_state i) of
           Fulfilled s' \<Rightarrow>
             Some (i\<lparr>this_state := (if mounted i then s' else this_state i),
                     calls := calls i @ [Call_setState s'],
                     classifying := False\<rparr>)
         | Rejected \<Rightarrow> Some (i\<lparr>classifying := False\<rparr>)
         | Pending \<Rightarrow> None)
      else None)"
| "step rt p OkClicked i =
     (if okButtonDisabled (render (this_state i)) \<or> \<not> mounted i then None
      else Some (onSubmit_start p i))"
| "step rt p RerequestResolved i =
     (if awaitingRerequest i = 0 then None else Some (onSubmit_afterRerequest p i))"
| "step rt p RerequestRejected i =
     (if awaitingRerequest i = 0 then None
      else Some (i\<lparr>awaitingRerequest := awaitingRerequest i - 1\<rparr>))"
| "step rt p RefreshResolved i =
     (if awaitingRefresh i = 0 then None else Some (onSubmit_afterRefresh i))"
| "step rt p RefreshRejected i =
     (if awaitingRefresh i = 0 then None
      else Some (i\<lparr>awaitingRefresh := awaitingRefresh i - 1\<rparr>))"
| "step rt p Dismiss i =
     Some (i\<lparr>calls := calls i @ [Call_onDismissed], mounted := False\<rparr>)"

fun run_from ::
  "runtime \<Rightarrow> ICICheckRunRerunDialogProps \<Rightarrow> event list \<Rightarrow> component \<Rightarrow> component option" where
  "run_from rt p [] i = Some i"
| "run_from rt p (e # es) i =
     (case step rt p e i of None \<Rightarrow> None | Some i' \<Rightarrow> run_from rt p es i')"

text \<open>The instance after the events \<open>es\<close>, from construction.\<close>

definition run ::
  "runtime \<Rightarrow> ICICheckRunRerunDialogProps \<Rightarrow> event list \<Rightarrow> component option" where
  "run rt p es = run_from rt p es (construct p)"

subsection \<open>Reading the calls\<close>

text \<open>
  Which calls are submissions (\<^verbatim>\<open>rerequestCheckSuites\<close>) and which are refreshes
  (\<^verbatim>\<open>manualRefreshSubscription\<close>).
\<close>

fun isRerequest :: "call \<Rightarrow> bool" where
  "isRerequest (Call_rerequestCheckSuites repo r f) = True"
| "isRerequest c = False"

fun isRefresh :: "call \<Rightarrow> bool" where
  "isRefresh (Call_manualRefreshSubscription repo ref r) = True"
| "isRefresh c = False"

text \<open>
  The invariant of the event loop, a device of the proofs. While
  \<^verbatim>\<open>determineRerunnability\<close> is suspended the state is the initial one and nothing
  has been submitted; a loading component has nothing to re-run; every submission and every
  refresh made so far was for the runs the state holds now; and there are no more
  refreshes than submissions that are no longer awaited.
\<close>

definition component_inv :: "ICICheckRunRerunDialogProps \<Rightarrow> component \<Rightarrow> bool" where
  "component_inv p i \<longleftrightarrow>
     (classifying i \<longrightarrow>
        this_state i = initialState \<and> awaitingRerequest i = 0 \<and> awaitingRefresh i = 0 \<and>
        filter isRerequest (calls i) = [] \<and> filter isRefresh (calls i) = []) \<and>
     (loadingCheckSuites (this_state i) \<longrightarrow> rerunnable (this_state i) = []) \<and>
     (\<forall>c \<in> set (calls i). isRerequest c \<longrightarrow>
        rerunnable (this_state i) \<noteq> [] \<and>
        c = Call_rerequestCheckSuites (repository p) (rerunnable (this_state i)) (failedOnly p)) \<and>
     (\<forall>c \<in> set (calls i). isRefresh c \<longrightarrow>
        c = Call_manualRefreshSubscription (repository p) (prRef p) (rerunnable (this_state i))) \<and>
     length (filter isRefresh (calls i)) + awaitingRerequest i \<le> length (filter isRerequest (calls i))"

subsection \<open>Concrete inputs\<close>

text \<open>
  The inputs at which the closed theorems below evaluate the definitions. The clock stands
  at 1700000000000 ms (2023-11-14T22:13:20Z); \<open>exampleParse\<close> gives
  \<^verbatim>\<open>Date.parse\<close> on the three dates used: 30 days before the clock, 29 days and 23
  hours before it, and one day before it. Suites 1, 2 and 3 pass all three clauses; the
  fetch of suite 4 resolves to \<^verbatim>\<open>null\<close>, that of suite 5 rejects, suite 6 is
  exactly 30 days old, suite 7 is in progress, suite 8 is not rerequestable, suite 9 is 29
  days and 23 hours old.
\<close>

definition exampleParse :: "string \<Rightarrow> int option" where
  "exampleParse d =
     (if d = ''2023-10-15T22:13:20Z'' then Some 1697408000000
      else if d = ''2023-10-15T23:13:20Z'' then Some 1697411600000
      else if d = ''2023-11-13T22:13:20Z'' then Some 1699913600000
      else None)"

definition exampleSuite :: "int \<Rightarrow> IAPICheckSuite" where
  "exampleSuite i =
     \<lparr>id_cs = i, rerequestable = True, created_at = ''2023-11-13T22:13:20Z'',
      status = Completed\<rparr>"

definition exampleFetch :: "string \<Rightarrow> int \<Rightarrow> IAPICheckSuite option promise" where
  "exampleFetch r i =
     (if i = 4 then Fulfilled None
      else if i = 5 then Rejected
      else if i = 6 then
        Fulfilled (Some ((exampleSuite 6)\<lparr>created_at := ''2023-10-15T22:13:20Z''\<rparr>))
      else if i = 7 then Fulfilled (Some ((exampleSuite 7)\<lparr>status := InProgress\<rparr>))
      else if i = 8 then Fulfilled (Some ((exampleSuite 8)\<lparr>rerequestable := False\<rparr>))
      else if i = 9 then
        Fulfilled (Some ((exampleSuite 9)\<lparr>created_at := ''2023-10-15T23:13:20Z''\<rparr>))
      else Fulfilled (Some (exampleSuite i)))"

definition exampleRuntime :: runtime where
  "exampleRuntime =
     \<lparr>fetchCheckSuite = exampleFetch, Date_now = 1700000000000, Date_parse = exampleParse\<rparr>"

definition exampleRun :: "int \<Rightarrow> APICheckConclusion \<Rightarrow> int option \<Rightarrow> IRefCheck" where
  "exampleRun i c s = \<lparr>id_cr = i, conclusion = Some c, checkSuiteId = s\<rparr>"

definition exampleProps :: "bool \<Rightarrow> IRefCheck list \<Rightarrow> ICICheckRunRerunDialogProps" where
  "exampleProps f rs =
     \<lparr>repository = ''desktop'', checkRuns = rs, prRef = ''refs/pull/7/head'', failedOnly = f\<rparr>"

text \<open>
  Lists of runs. \<open>mixedRuns\<close>: a failure and a success of the eligible suite 1, a success
  with no suite, a failure of suite 6. \<open>fiveRuns\<close>: three failures and two successes, the
  failures in the eligible suites 1 and 2. \<open>nullFetchRuns\<close>: a run of suite 4, whose fetch
  resolves to \<^verbatim>\<open>null\<close>, and a run of the eligible suite 1. \<open>rejectedFetchRuns\<close>: a
  run of suite 5, whose fetch rejects, and a run of the eligible suite 1.
\<close>

definition mixedRuns :: "IRefCheck list" where
  "mixedRuns =
     [exampleRun 1 Failure (Some 1), exampleRun 2 Success None,
      exampleRun 3 Success (Some 1), exampleRun 4 Failure (Some 6)]"

definition fiveRuns :: "IRefCheck list" where
  "fiveRuns =
     [exampleRun 1 Failure (Some 1), exampleRun 2 Success (Some 3),
      exampleRun 3 Failure (Some 1), exampleRun 4 Failure (Some 2),
      exampleRun 5 Success None]"

definition nullFetchRuns :: "IRefCheck list" where
  "nullFetchRuns = [exampleRun 1 Failure (Some 4), exampleRun 2 Success (Some 1)]"

definition rejectedFetchRuns :: "IRefCheck list" where
  "rejectedFetchRuns = [exampleRun 1 Failure (Some 5), exampleRun 2 Success (Some 1)]"

text \<open>
  The component constructed with \<open>nullFetchRuns\<close> once its classification has completed:
  run 2 can be re-run, run 1 cannot.
\<close>

definition readyState :: ICICheckRunRerunDialogState where
  "readyState =
     \<lparr>loadingCheckSuites = False, loadingRerun = False,
      rerunnable = [exampleRun 2 Success (Some 1)],
      nonRerunnable = [exampleRun 1 Failure (Some 4)]\<rparr>"

definition readyComponent :: component where
  "readyComponent =
     \<lparr>this_state = readyState,
      calls = [Call_fetchCheckSuite ''desktop'' 4, Call_fetchCheckSuite ''desktop'' 1,
               Call_setState readyState],
      classifying = False, awaitingRerequest = 0, awaitingRefresh = 0, mounted = True\<rparr>"

lemmas example_defs =
  exampleParse_def exampleSuite_def exampleFetch_def exampleRuntime_def exampleRun_def
  exampleProps_def mixedRuns_def fiveRuns_def nullFetchRuns_def rejectedFetchRuns_def

lemmas classification_defs =
  determineRerunnability_def checkSuitesPromises_def checkSuiteIds_def new_Set_def Set_add_def
  checkRunsToConsider_def classify_def rerunnableOf_def nonRerunnableOf_def initialState_def
  offsetFromNow_def

lemmas event_loop_defs =
  run_def construct_def render_def onSubmit_start_def onSubmit_afterRerequest_def
  onSubmit_afterRefresh_def readyState_def readyComponent_def Let_def

section \<open>Properties\<close>

subsection \<open>Sets, promises and the loop over the suites\<close>

lemma set_foldl_Set_add: "set (foldl Set_add acc xs) = set acc \<union> set xs"
  by (induction xs arbitrary: acc) (auto simp: Set_add_def)

lemma distinct_foldl_Set_add: "distinct acc \<Longrightarrow> distinct (foldl Set_add acc xs)"
  by (induction xs arbitrary: acc) (auto simp: Set_add_def)

lemma set_new_Set: "set (new_Set xs) = set xs"
  by (simp add: new_Set_def set_foldl_Set_add)

lemma distinct_new_Set: "distinct (new_Set xs)"
  by (simp add: new_Set_def distinct_foldl_Set_add)

lemma set_fetchedIds: "set (fetchedIds ids) = {i. Some i \<in> set ids}"
  by (induction ids rule: fetchedIds.induct) auto

lemma distinct_fetchedIds: "distinct ids \<Longrightarrow> distinct (fetchedIds ids)"
  by (induction ids rule: fetchedIds.induct) (auto simp: set_fetchedIds)

lemma Promise_all_Rejected: "Promise_all ps = Rejected \<longleftrightarrow> Rejected \<in> set ps"
  by (induction ps rule: Promise_all.induct) (auto split: promise.splits)

lemma Promise_all_map_Fulfilled: "Promise_all (map Fulfilled vs) = Fulfilled vs"
  by (induction vs) simp_all

lemma Promise_all_FulfilledD: "Promise_all ps = Fulfilled vs \<Longrightarrow> ps = map Fulfilled vs"
  by (induction ps arbitrary: vs rule: Promise_all.induct) (auto split: promise.splits)

lemma Promise_all_Fulfilled: "Promise_all ps = Fulfilled vs \<longleftrightarrow> ps = map Fulfilled vs"
  using Promise_all_map_Fulfilled Promise_all_FulfilledD by blast

lemma all_Fulfilled_map:
  assumes "Rejected \<notin> set ps" and "Pending \<notin> set ps"
  shows "\<exists>vs. ps = map Fulfilled vs"
  using assms
proof (induction ps)
  case Nil
  then show ?case by simp
next
  case (Cons q ps)
  then obtain vs where "ps = map Fulfilled vs" by auto
  moreover from Cons.prems obtain v where "q = Fulfilled v" by (cases q) auto
  ultimately have "q # ps = map Fulfilled (v # vs)" by simp
  then show ?case by (rule exI)
qed

lemma Promise_all_Pending:
  "Promise_all ps = Pending \<longleftrightarrow> Rejected \<notin> set ps \<and> Pending \<in> set ps"
proof (cases "Promise_all ps")
  case (Fulfilled vs)
  then have "ps = map Fulfilled vs" by (rule Promise_all_FulfilledD)
  then have "Rejected \<notin> set ps" "Pending \<notin> set ps" by auto
  with Fulfilled show ?thesis by simp
next
  case Rejected
  then show ?thesis by (simp add: Promise_all_Rejected [symmetric])
next
  case Pending
  then have nr: "Rejected \<notin> set ps" by (simp add: Promise_all_Rejected [symmetric])
  have "Pending \<in> set ps"
  proof (rule ccontr)
    assume "Pending \<notin> set ps"
    with nr obtain vs where "ps = map Fulfilled vs" using all_Fulfilled_map by blast
    then show False using Pending by (simp add: Promise_all_map_Fulfilled)
  qed
  with nr Pending show ?thesis by simp
qed

text \<open>The loop over the suites in closed form: one id for each suite that passes.\<close>

lemma rerequestableCheckSuiteIds_filter:
  "rerequestableCheckSuiteIds rt css =
     map id_cs
       (filter (\<lambda>cs. rerequestable cs \<and>
                      (\<exists>t. Date_parse rt (created_at cs) = Some t \<and>
                           Date_now rt - 30 * 24 * 60 * 60 * 1000 < t) \<and>
                      status cs = Completed)
          [cs. Some cs \<leftarrow> css])"
proof (induction rt css rule: rerequestableCheckSuiteIds.induct)
  case (3 rt cs css)
  have gt: "js_gt (Date_parse rt (created_at cs)) (offsetFromNow rt (- 30) Days) \<longleftrightarrow>
      (\<exists>t. Date_parse rt (created_at cs) = Some t \<and> Date_now rt - 30 * 24 * 60 * 60 * 1000 < t)"
    by (cases "Date_parse rt (created_at cs)") (auto simp: offsetFromNow_def)
  show ?case using 3 gt by (simp add: Let_def)
qed simp_all

lemma determineRerunnability_Fulfilled:
  "determineRerunnability rt p s = Fulfilled s' \<longleftrightarrow>
     (\<exists>css. Promise_all (checkSuitesPromises rt p) = Fulfilled css \<and> s' = classify rt p css s)"
  by (auto simp: determineRerunnability_def split: promise.splits)

lemma includes_id_iff: "includes_id ids x \<longleftrightarrow> (\<exists>i. x = Some i \<and> i \<in> set ids)"
  by (cases x) simp_all

lemma rerunnable_classify:
  "rerunnable (classify rt p css s) =
     filter (\<lambda>cr. \<exists>i. checkSuiteId cr = Some i \<and> i \<in> set (rerequestableCheckSuiteIds rt css))
       (checkRunsToConsider p)"
proof -
  have "rerunnableOf p ids =
      filter (\<lambda>cr. \<exists>i. checkSuiteId cr = Some i \<and> i \<in> set ids) (checkRunsToConsider p)" for ids
    unfolding rerunnableOf_def by (rule filter_cong) (auto simp: includes_id_iff)
  then show ?thesis by (simp add: classify_def Let_def)
qed

lemma nonRerunnable_classify:
  "nonRerunnable (classify rt p css s) =
     filter (\<lambda>cr. checkSuiteId cr = None \<or>
                  (\<exists>i. checkSuiteId cr = Some i \<and> i \<notin> set (rerequestableCheckSuiteIds rt css)) \<or>
                  (failedOnly p \<and> conclusion cr = Some Failure))
       (checkRuns p)"
proof -
  have "nonRerunnableOf p ids =
      filter (\<lambda>cr. checkSuiteId cr = None \<or>
                   (\<exists>i. checkSuiteId cr = Some i \<and> i \<notin> set ids) \<or>
                   (failedOnly p \<and> conclusion cr = Some Failure)) (checkRuns p)" for ids
    unfolding nonRerunnableOf_def by (rule filter_cong) (auto simp: includes_id_iff)
  then show ?thesis by (simp add: classify_def Let_def)
qed

text \<open>Which suites are fetched, and what the join hands to the loop.\<close>

lemma fetchedIds_checkSuiteIds:
  "i \<in> set (fetchedIds (checkSuiteIds p)) \<longleftrightarrow>
     (\<exists>cr \<in> set (checkRunsToConsider p). checkSuiteId cr = Some i)"
  by (force simp: set_fetchedIds checkSuiteIds_def set_new_Set)

lemma checkSuitesPromises_Fulfilled:
  assumes "\<forall>i \<in> set (fetchedIds (checkSuiteIds p)). \<exists>r. fetchCheckSuite rt (repository p) i = Fulfilled r"
  shows "\<exists>css. Promise_all (checkSuitesPromises rt p) = Fulfilled css"
proof -
  have "Rejected \<notin> set (checkSuitesPromises rt p)" "Pending \<notin> set (checkSuitesPromises rt p)"
    using assms by (auto simp: checkSuitesPromises_def)
  then obtain css where "checkSuitesPromises rt p = map Fulfilled css"
    using all_Fulfilled_map by blast
  then show ?thesis by (simp add: Promise_all_map_Fulfilled)
qed

lemma fetched_suite_member:
  assumes "Promise_all (checkSuitesPromises rt p) = Fulfilled css"
  shows "r \<in> set css \<longleftrightarrow>
     (\<exists>i \<in> set (fetchedIds (checkSuiteIds p)). fetchCheckSuite rt (repository p) i = Fulfilled r)"
proof -
  from assms have "checkSuitesPromises rt p = map Fulfilled css" by (rule Promise_all_FulfilledD)
  then have "set (map Fulfilled css) = set (checkSuitesPromises rt p)" by simp
  then have eq: "Fulfilled ` set css =
      fetchCheckSuite rt (repository p) ` set (fetchedIds (checkSuiteIds p))"
    by (simp add: checkSuitesPromises_def)
  have "r \<in> set css \<longleftrightarrow> Fulfilled r \<in> Fulfilled ` set css"
    by auto
  also have "\<dots> \<longleftrightarrow>
      Fulfilled r \<in> fetchCheckSuite rt (repository p) ` set (fetchedIds (checkSuiteIds p))"
    by (simp only: eq)
  also have "\<dots> \<longleftrightarrow>
      (\<exists>i \<in> set (fetchedIds (checkSuiteIds p)). fetchCheckSuite rt (repository p) i = Fulfilled r)"
    by force
  finally show ?thesis .
qed

lemma rerequestableCheckSuiteIds_member:
  "i \<in> set (rerequestableCheckSuiteIds rt css) \<longleftrightarrow>
     (\<exists>cs. Some cs \<in> set css \<and> id_cs cs = i \<and> rerequestable cs \<and>
           js_gt (Date_parse rt (created_at cs)) (offsetFromNow rt (- 30) Days) \<and>
           status cs = Completed)"
  by (induction rt css rule: rerequestableCheckSuiteIds.induct) (auto simp: Let_def)

subsection \<open>The join, one settlement at a time\<close>

lemma those_map_Some: "those (map Some vs) = Some vs"
  by (induction vs) simp_all

lemma those_None: "None \<in> set xs \<Longrightarrow> those xs = None"
  by (induction xs) (auto split: option.splits)

lemma Promise_all_settling_eq:
  assumes "length slots = length ps"
    and "\<forall>k < length ps. \<forall>v. slots ! k = Some v \<longrightarrow> ps ! k = Fulfilled v"
    and "\<forall>k < length ps. ps ! k \<noteq> Pending \<and> slots ! k = None \<longrightarrow> k \<in> set order"
  shows "Promise_all_settling ps order slots = Promise_all ps"
  using assms
proof (induction order arbitrary: slots)
  case Nil
  have nr: "Rejected \<notin> set ps"
  proof
    assume "Rejected \<in> set ps"
    then obtain k where k: "k < length ps" "ps ! k = Rejected" by (auto simp: in_set_conv_nth)
    with Nil.prems(2) have "slots ! k = None" by (cases "slots ! k") auto
    with k Nil.prems(3) show False by auto
  qed
  show ?case
  proof (cases "Pending \<in> set ps")
    case True
    then obtain k where k: "k < length ps" "ps ! k = Pending" by (auto simp: in_set_conv_nth)
    with Nil.prems(2) have "slots ! k = None" by (cases "slots ! k") auto
    with k Nil.prems(1) have "None \<in> set slots" by (metis nth_mem)
    then have "those slots = None" by (rule those_None)
    moreover from nr True have "Promise_all ps = Pending" by (simp add: Promise_all_Pending)
    ultimately show ?thesis by simp
  next
    case False
    with nr obtain vs where vs: "ps = map Fulfilled vs" using all_Fulfilled_map by blast
    have "slots = map Some vs"
    proof (rule nth_equalityI)
      show "length slots = length (map Some vs)" using Nil.prems(1) vs by simp
    next
      fix k assume "k < length slots"
      with Nil.prems(1) have k: "k < length ps" by simp
      with vs have pk: "ps ! k = Fulfilled (vs ! k)" by simp
      show "slots ! k = map Some vs ! k"
      proof (cases "slots ! k")
        case None
        with k pk Nil.prems(3) show ?thesis by auto
      next
        case (Some v)
        with k Nil.prems(2) have "ps ! k = Fulfilled v" by blast
        with pk Some k vs show ?thesis by simp
      qed
    qed
    then have "those slots = Some vs" by (simp add: those_map_Some)
    with vs show ?thesis by (simp add: Promise_all_map_Fulfilled)
  qed
next
  case (Cons k order)
  show ?case
  proof (cases "k < length ps")
    case False
    have "Promise_all_settling ps order slots = Promise_all ps"
    proof (rule Cons.IH)
      show "length slots = length ps" by (rule Cons.prems(1))
      show "\<forall>k < length ps. \<forall>v. slots ! k = Some v \<longrightarrow> ps ! k = Fulfilled v"
        by (rule Cons.prems(2))
      show "\<forall>k' < length ps. ps ! k' \<noteq> Pending \<and> slots ! k' = None \<longrightarrow> k' \<in> set order"
        using Cons.prems(3) False by auto
    qed
    with False show ?thesis by simp
  next
    case True
    show ?thesis
    proof (cases "ps ! k")
      case Rejected
      with True have "Rejected \<in> set ps" by (metis nth_mem)
      then have "Promise_all ps = Rejected" by (simp add: Promise_all_Rejected)
      with True Rejected show ?thesis by simp
    next
      case Pending
      have "Promise_all_settling ps order slots = Promise_all ps"
      proof (rule Cons.IH)
        show "length slots = length ps" by (rule Cons.prems(1))
        show "\<forall>k < length ps. \<forall>v. slots ! k = Some v \<longrightarrow> ps ! k = Fulfilled v"
          by (rule Cons.prems(2))
        show "\<forall>k' < length ps. ps ! k' \<noteq> Pending \<and> slots ! k' = None \<longrightarrow> k' \<in> set order"
          using Cons.prems(3) Pending by auto
      qed
      with True Pending show ?thesis by simp
    next
      case (Fulfilled v)
      have "Promise_all_settling ps order (slots[k := Some v]) = Promise_all ps"
      proof (rule Cons.IH)
        show "length (slots[k := Some v]) = length ps" using Cons.prems(1) by simp
        show "\<forall>k' < length ps. \<forall>w. slots[k := Some v] ! k' = Some w \<longrightarrow> ps ! k' = Fulfilled w"
        proof (intro allI impI)
          fix k' w
          assume k': "k' < length ps" and w: "slots[k := Some v] ! k' = Some w"
          show "ps ! k' = Fulfilled w"
          proof (cases "k' = k")
            case True
            with w k' Cons.prems(1) have "w = v" by simp
            with True Fulfilled show ?thesis by simp
          next
            case False
            with w have "slots ! k' = Some w" by simp
            with k' Cons.prems(2) show ?thesis by blast
          qed
        qed
        show "\<forall>k' < length ps. ps ! k' \<noteq> Pending \<and> slots[k := Some v] ! k' = None \<longrightarrow>
            k' \<in> set order"
        proof (intro allI impI)
          fix k'
          assume k': "k' < length ps"
            and n: "ps ! k' \<noteq> Pending \<and> slots[k := Some v] ! k' = None"
          have ne: "k' \<noteq> k"
          proof
            assume "k' = k"
            with k' Cons.prems(1) have "slots[k := Some v] ! k' = Some v" by simp
            with n show False by simp
          qed
          with n have "slots ! k' = None" by simp
          with k' n Cons.prems(3) have "k' \<in> set (k # order)" by blast
          with ne show "k' \<in> set order" by simp
        qed
      qed
      with True Fulfilled show ?thesis by simp
    qed
  qed
qed

lemma Promise_all_settling_Promise_all:
  assumes "\<forall>k < length ps. ps ! k \<noteq> Pending \<longrightarrow> k \<in> set order"
  shows "Promise_all_settling ps order (replicate (length ps) None) = Promise_all ps"
  using assms by (intro Promise_all_settling_eq) auto

lemma classify_set_cong:
  assumes "set (rerequestableCheckSuiteIds rt css) = set (rerequestableCheckSuiteIds rt css')"
  shows "classify rt p css s = classify rt p css' s"
proof -
  have "includes_id (rerequestableCheckSuiteIds rt css) x =
      includes_id (rerequestableCheckSuiteIds rt css') x" for x
    using assms by (simp add: includes_id_iff)
  then show ?thesis
    by (simp add: classify_def Let_def rerunnableOf_def nonRerunnableOf_def)
qed

subsection \<open>The invariant of the event loop\<close>

lemma inv_construct: "component_inv p (construct p)"
  by (auto simp: component_inv_def construct_def initialState_def filter_empty_conv)

lemma loadingCheckSuites_classify [simp]: "\<not> loadingCheckSuites (classify rt p css s)"
  by (simp add: classify_def Let_def)

lemma inv_step:
  assumes "component_inv p i" and "step rt p e i = Some i'"
  shows "component_inv p i'"
proof (cases e)
  case FetchesSettled
  with assms(2) have c: "classifying i" by (simp split: if_splits)
  with assms(1) have init: "this_state i = initialState" "awaitingRerequest i = 0"
    "filter isRerequest (calls i) = []" "filter isRefresh (calls i) = []"
    by (simp_all add: component_inv_def)
  show ?thesis
  proof (cases "determineRerunnability rt p (this_state i)")
    case (Fulfilled s')
    then obtain css where "s' = classify rt p css (this_state i)"
      by (auto simp: determineRerunnability_Fulfilled)
    moreover have "rerunnable initialState = []" by (simp add: initialState_def)
    ultimately show ?thesis
      using Fulfilled FetchesSettled assms(2) c init
      by (auto simp: component_inv_def filter_empty_conv)
  next
    case Rejected
    with FetchesSettled assms(2) c init show ?thesis
      by (auto simp: component_inv_def filter_empty_conv initialState_def)
  next
    case Pending
    with FetchesSettled assms(2) c show ?thesis by simp
  qed
next
  case OkClicked
  with assms(2) have ne: "rerunnable (this_state i) \<noteq> []" and i': "i' = onSubmit_start p i"
    by (simp_all add: render_def split: if_splits)
  from ne assms(1) have nc: "\<not> classifying i"
    by (auto simp: component_inv_def initialState_def)
  from assms(1) ne nc show ?thesis
    unfolding i' component_inv_def onSubmit_start_def Let_def by auto
next
  case RerequestResolved
  with assms(2) have pos: "awaitingRerequest i \<noteq> 0" and i': "i' = onSubmit_afterRerequest p i"
    by (simp_all split: if_splits)
  from pos assms(1) have nc: "\<not> classifying i" by (auto simp: component_inv_def)
  from assms(1) pos nc show ?thesis
    unfolding i' component_inv_def onSubmit_afterRerequest_def by auto
next
  case RerequestRejected
  with assms(2) have pos: "awaitingRerequest i \<noteq> 0"
    and i': "i' = i\<lparr>awaitingRerequest := awaitingRerequest i - 1\<rparr>"
    by (simp_all split: if_splits)
  from pos assms(1) have nc: "\<not> classifying i" by (auto simp: component_inv_def)
  from assms(1) pos nc show ?thesis
    unfolding i' component_inv_def by auto
next
  case RefreshResolved
  with assms(2) have pos: "awaitingRefresh i \<noteq> 0" and i': "i' = onSubmit_afterRefresh i"
    by (simp_all split: if_splits)
  from pos assms(1) have nc: "\<not> classifying i" by (auto simp: component_inv_def)
  from assms(1) pos nc show ?thesis
    unfolding i' component_inv_def onSubmit_afterRefresh_def by auto
next
  case RefreshRejected
  with assms(2) have pos: "awaitingRefresh i \<noteq> 0"
    and i': "i' = i\<lparr>awaitingRefresh := awaitingRefresh i - 1\<rparr>"
    by (simp_all split: if_splits)
  from pos assms(1) have nc: "\<not> classifying i" by (auto simp: component_inv_def)
  from assms(1) pos nc show ?thesis
    unfolding i' component_inv_def by auto
next
  case Dismiss
  with assms(2) have i': "i' = i\<lparr>calls := calls i @ [Call_onDismissed], mounted := False\<rparr>"
    by simp
  from assms(1) show ?thesis
    unfolding i' component_inv_def by auto
qed

lemma inv_run_from:
  "component_inv p i \<Longrightarrow> run_from rt p es i = Some j \<Longrightarrow> component_inv p j"
proof (induction es arbitrary: i)
  case Nil
  then show ?case by simp
next
  case (Cons e es)
  from Cons.prems(2) obtain i' where s: "step rt p e i = Some i'" and r: "run_from rt p es i' = Some j"
    by (auto split: option.splits)
  from inv_step [OF Cons.prems(1) s] r show ?case by (rule Cons.IH)
qed

lemma inv_run: "run rt p es = Some i \<Longrightarrow> component_inv p i"
  unfolding run_def using inv_construct by (rule inv_run_from)





lemma inv_classifying:
  assumes "component_inv p i" and "classifying i"
  shows "this_state i = initialState"
    and "awaitingRerequest i = 0" and "awaitingRefresh i = 0"
  using assms unfolding component_inv_def by (elim conjE, simp)+

lemma inv_loading:
  assumes "component_inv p i" and "loadingCheckSuites (this_state i)"
  shows "rerunnable (this_state i) = []"
  using assms unfolding component_inv_def by (elim conjE) simp

lemma inv_rerequest:
  assumes "component_inv p i" and "c \<in> set (calls i)" and "isRerequest c"
  shows "rerunnable (this_state i) \<noteq> []"
    and "c = Call_rerequestCheckSuites (repository p) (rerunnable (this_state i)) (failedOnly p)"
proof -
  from assms(1) have "\<forall>c \<in> set (calls i). isRerequest c \<longrightarrow>
        rerunnable (this_state i) \<noteq> [] \<and>
        c = Call_rerequestCheckSuites (repository p) (rerunnable (this_state i)) (failedOnly p)"
    unfolding component_inv_def by (elim conjE)
  with assms(2,3) show "rerunnable (this_state i) \<noteq> []"
    and "c = Call_rerequestCheckSuites (repository p) (rerunnable (this_state i)) (failedOnly p)"
    by blast+
qed

lemma inv_count:
  assumes "component_inv p i"
  shows "length (filter isRefresh (calls i)) + awaitingRerequest i \<le>
     length (filter isRerequest (calls i))"
  using assms unfolding component_inv_def by (elim conjE)


lemma run_ready:
  "run exampleRuntime (exampleProps False nullFetchRuns) [FetchesSettled] = Some readyComponent"
  by (simp add: event_loop_defs classification_defs example_defs)

subsection \<open>The eligible suites\<close>

text \<open>
  Claim C1. The loop of lines 105 to 119 pushes the id of a fetched suite exactly when the
  suite is rerequestable, its creation time parses to a time strictly later than the clock
  minus 30 days, and its status is completed; a fetch that gave \<^verbatim>\<open>null\<close> pushes
  nothing. So the list of eligible ids is the list of the ids of the fetched suites that
  pass the three clauses. A suite created exactly 30 days before the clock is not pushed;
  one created 29 days and 23 hours before it passes the age clause and is pushed when the
  other two clauses hold.
\<close>

theorem C1_eligible_suite_ids:
  "rerequestableCheckSuiteIds rt css =
     map id_cs
       (filter (\<lambda>cs. rerequestable cs \<and>
                      (\<exists>t. Date_parse rt (created_at cs) = Some t \<and>
                           Date_now rt - 30 * 24 * 60 * 60 * 1000 < t) \<and>
                      status cs = Completed)
          [cs. Some cs \<leftarrow> css]) \<and>
   (Date_parse rt (created_at c) = Some (Date_now rt - 30 * 24 * 60 * 60 * 1000) \<longrightarrow>
      rerequestableCheckSuiteIds rt [Some c] = []) \<and>
   (Date_parse rt (created_at c) = Some (Date_now rt - (29 * 24 + 23) * 60 * 60 * 1000) \<longrightarrow>
      rerequestableCheckSuiteIds rt [Some c] =
        (if rerequestable c \<and> status c = Completed then [id_cs c] else []))"
proof (intro conjI impI)
  show "rerequestableCheckSuiteIds rt css =
     map id_cs
       (filter (\<lambda>cs. rerequestable cs \<and>
                      (\<exists>t. Date_parse rt (created_at cs) = Some t \<and>
                           Date_now rt - 30 * 24 * 60 * 60 * 1000 < t) \<and>
                      status cs = Completed)
          [cs. Some cs \<leftarrow> css])"
    by (rule rerequestableCheckSuiteIds_filter)
next
  assume "Date_parse rt (created_at c) = Some (Date_now rt - 30 * 24 * 60 * 60 * 1000)"
  then show "rerequestableCheckSuiteIds rt [Some c] = []"
    by (simp add: offsetFromNow_def)
next
  assume "Date_parse rt (created_at c) = Some (Date_now rt - (29 * 24 + 23) * 60 * 60 * 1000)"
  then show "rerequestableCheckSuiteIds rt [Some c] =
        (if rerequestable c \<and> status c = Completed then [id_cs c] else [])"
    by (simp add: offsetFromNow_def)
qed

theorem C1_eligible_suite_ids_witness:
  "Date_parse exampleRuntime (created_at ((exampleSuite 6)\<lparr>created_at := ''2023-10-15T22:13:20Z''\<rparr>)) =
     Some (Date_now exampleRuntime - 30 * 24 * 60 * 60 * 1000) \<and>
   rerequestableCheckSuiteIds exampleRuntime
     [Some ((exampleSuite 6)\<lparr>created_at := ''2023-10-15T22:13:20Z''\<rparr>)] = [] \<and>
   Date_parse exampleRuntime (created_at ((exampleSuite 9)\<lparr>created_at := ''2023-10-15T23:13:20Z''\<rparr>)) =
     Some (Date_now exampleRuntime - (29 * 24 + 23) * 60 * 60 * 1000) \<and>
   rerequestableCheckSuiteIds exampleRuntime
     [Some ((exampleSuite 9)\<lparr>created_at := ''2023-10-15T23:13:20Z''\<rparr>)] = [9] \<and>
   rerequestableCheckSuiteIds exampleRuntime
     [Some (exampleSuite 1), None, Some ((exampleSuite 7)\<lparr>status := InProgress\<rparr>),
      Some ((exampleSuite 8)\<lparr>rerequestable := False\<rparr>), Some (exampleSuite 2)] = [1, 2]"
proof -
  have a: "Date_parse exampleRuntime (created_at ((exampleSuite 6)\<lparr>created_at := ''2023-10-15T22:13:20Z''\<rparr>)) =
     Some (Date_now exampleRuntime - 30 * 24 * 60 * 60 * 1000)"
    by (simp add: exampleRuntime_def exampleParse_def)
  have b: "Date_parse exampleRuntime (created_at ((exampleSuite 9)\<lparr>created_at := ''2023-10-15T23:13:20Z''\<rparr>)) =
     Some (Date_now exampleRuntime - (29 * 24 + 23) * 60 * 60 * 1000)"
    by (simp add: exampleRuntime_def exampleParse_def)
  have c: "rerequestable ((exampleSuite 9)\<lparr>created_at := ''2023-10-15T23:13:20Z''\<rparr>) \<and>
      status ((exampleSuite 9)\<lparr>created_at := ''2023-10-15T23:13:20Z''\<rparr>) = Completed \<and>
      id_cs ((exampleSuite 9)\<lparr>created_at := ''2023-10-15T23:13:20Z''\<rparr>) = 9"
    by (simp add: exampleSuite_def)
  note t6 = C1_eligible_suite_ids [of exampleRuntime "[]"
      "(exampleSuite 6)\<lparr>created_at := ''2023-10-15T22:13:20Z''\<rparr>"]
  note t9 = C1_eligible_suite_ids [of exampleRuntime "[]"
      "(exampleSuite 9)\<lparr>created_at := ''2023-10-15T23:13:20Z''\<rparr>"]
  note tl = C1_eligible_suite_ids [of exampleRuntime
      "[Some (exampleSuite 1), None, Some ((exampleSuite 7)\<lparr>status := InProgress\<rparr>),
        Some ((exampleSuite 8)\<lparr>rerequestable := False\<rparr>), Some (exampleSuite 2)]"
      "exampleSuite 1"]
  have l: "rerequestableCheckSuiteIds exampleRuntime
     [Some (exampleSuite 1), None, Some ((exampleSuite 7)\<lparr>status := InProgress\<rparr>),
      Some ((exampleSuite 8)\<lparr>rerequestable := False\<rparr>), Some (exampleSuite 2)] = [1, 2]"
    using tl by (simp add: exampleRuntime_def exampleParse_def exampleSuite_def)
  from a b c t6 t9 l show ?thesis by simp
qed

subsection \<open>The list of runs that cannot be re-run\<close>

text \<open>
  Claim C3. When the classification completes, \<^verbatim>\<open>nonRerunnable\<close> is the full list
  \<^verbatim>\<open>props.checkRuns\<close>, not the working subset, filtered by: the suite id is null, or
  it is not among the eligible ids, or \<^verbatim>\<open>failedOnly\<close> is set and the conclusion of
  the run is failure.
\<close>

theorem C3_nonRerunnable_from_full_list:
  assumes "determineRerunnability rt p s = Fulfilled s'"
  shows "\<exists>css. Promise_all (checkSuitesPromises rt p) = Fulfilled css \<and>
     nonRerunnable s' =
       filter (\<lambda>cr. checkSuiteId cr = None \<or>
                    (\<exists>i. checkSuiteId cr = Some i \<and> i \<notin> set (rerequestableCheckSuiteIds rt css)) \<or>
                    (failedOnly p \<and> conclusion cr = Some Failure))
         (checkRuns p)"
  using assms by (auto simp: determineRerunnability_Fulfilled nonRerunnable_classify)

theorem C3_nonRerunnable_from_full_list_witness:
  "determineRerunnability exampleRuntime (exampleProps True mixedRuns) initialState =
     Fulfilled \<lparr>loadingCheckSuites = False, loadingRerun = False,
       rerunnable = [exampleRun 1 Failure (Some 1)],
       nonRerunnable =
         [exampleRun 1 Failure (Some 1), exampleRun 2 Success None, exampleRun 4 Failure (Some 6)]\<rparr> \<and>
   (\<exists>css. Promise_all (checkSuitesPromises exampleRuntime (exampleProps True mixedRuns)) = Fulfilled css \<and>
     [exampleRun 1 Failure (Some 1), exampleRun 2 Success None, exampleRun 4 Failure (Some 6)] =
       filter (\<lambda>cr. checkSuiteId cr = None \<or>
                    (\<exists>i. checkSuiteId cr = Some i \<and>
                         i \<notin> set (rerequestableCheckSuiteIds exampleRuntime css)) \<or>
                    (failedOnly (exampleProps True mixedRuns) \<and> conclusion cr = Some Failure))
         (checkRuns (exampleProps True mixedRuns)))"
proof -
  have h: "determineRerunnability exampleRuntime (exampleProps True mixedRuns) initialState =
     Fulfilled \<lparr>loadingCheckSuites = False, loadingRerun = False,
       rerunnable = [exampleRun 1 Failure (Some 1)],
       nonRerunnable =
         [exampleRun 1 Failure (Some 1), exampleRun 2 Success None, exampleRun 4 Failure (Some 6)]\<rparr>"
    by (simp add: classification_defs example_defs)
  from C3_nonRerunnable_from_full_list [OF h] have
    "\<exists>css. Promise_all (checkSuitesPromises exampleRuntime (exampleProps True mixedRuns)) = Fulfilled css \<and>
     [exampleRun 1 Failure (Some 1), exampleRun 2 Success None, exampleRun 4 Failure (Some 6)] =
       filter (\<lambda>cr. checkSuiteId cr = None \<or>
                    (\<exists>i. checkSuiteId cr = Some i \<and>
                         i \<notin> set (rerequestableCheckSuiteIds exampleRuntime css)) \<or>
                    (failedOnly (exampleProps True mixedRuns) \<and> conclusion cr = Some Failure))
         (checkRuns (exampleProps True mixedRuns))"
    by simp
  with h show ?thesis by (rule conjI)
qed

subsection \<open>The list of runs to re-run\<close>

text \<open>
  Claim C4. When the classification completes, \<^verbatim>\<open>rerunnable\<close> is the working subset
  (the runs whose conclusion is failure when \<^verbatim>\<open>failedOnly\<close> is set, all runs
  otherwise) filtered by: the suite id is not null and is among the eligible ids. In
  particular, with \<^verbatim>\<open>failedOnly\<close> set and five runs, three failures and two
  successes, where the suite of every failure is fetched and passes the three clauses, the
  classification completes and \<^verbatim>\<open>rerunnable\<close> has length 3.
\<close>

theorem C4_rerunnable_of_working_subset:
  "(determineRerunnability rt p s = Fulfilled s' \<longrightarrow>
      (\<exists>css. Promise_all (checkSuitesPromises rt p) = Fulfilled css \<and>
         rerunnable s' =
           filter (\<lambda>cr. \<exists>i. checkSuiteId cr = Some i \<and> i \<in> set (rerequestableCheckSuiteIds rt css))
             (if failedOnly p then filter (\<lambda>cr. conclusion cr = Some Failure) (checkRuns p)
              else checkRuns p))) \<and>
   (failedOnly p \<and> length (checkRuns p) = 5 \<and>
    length (filter (\<lambda>cr. conclusion cr = Some Failure) (checkRuns p)) = 3 \<and>
    length (filter (\<lambda>cr. conclusion cr = Some Success) (checkRuns p)) = 2 \<and>
    (\<forall>cr \<in> set (checkRuns p). conclusion cr = Some Failure \<longrightarrow>
       (\<exists>i cs. checkSuiteId cr = Some i \<and>
          fetchCheckSuite rt (repository p) i = Fulfilled (Some cs) \<and> id_cs cs = i \<and>
          rerequestable cs \<and>
          js_gt (Date_parse rt (created_at cs)) (offsetFromNow rt (- 30) Days) \<and>
          status cs = Completed)) \<longrightarrow>
      (\<exists>s'. determineRerunnability rt p s = Fulfilled s' \<and> length (rerunnable s') = 3))"
proof (intro conjI impI)
  assume "determineRerunnability rt p s = Fulfilled s'"
  then show "\<exists>css. Promise_all (checkSuitesPromises rt p) = Fulfilled css \<and>
         rerunnable s' =
           filter (\<lambda>cr. \<exists>i. checkSuiteId cr = Some i \<and> i \<in> set (rerequestableCheckSuiteIds rt css))
             (if failedOnly p then filter (\<lambda>cr. conclusion cr = Some Failure) (checkRuns p)
              else checkRuns p)"
    by (auto simp: determineRerunnability_Fulfilled rerunnable_classify checkRunsToConsider_def)
next
  assume a: "failedOnly p \<and> length (checkRuns p) = 5 \<and>
    length (filter (\<lambda>cr. conclusion cr = Some Failure) (checkRuns p)) = 3 \<and>
    length (filter (\<lambda>cr. conclusion cr = Some Success) (checkRuns p)) = 2 \<and>
    (\<forall>cr \<in> set (checkRuns p). conclusion cr = Some Failure \<longrightarrow>
       (\<exists>i cs. checkSuiteId cr = Some i \<and>
          fetchCheckSuite rt (repository p) i = Fulfilled (Some cs) \<and> id_cs cs = i \<and>
          rerequestable cs \<and>
          js_gt (Date_parse rt (created_at cs)) (offsetFromNow rt (- 30) Days) \<and>
          status cs = Completed))"
  let ?W = "filter (\<lambda>cr. conclusion cr = Some Failure) (checkRuns p)"
  from a have W: "checkRunsToConsider p = ?W" by (simp add: checkRunsToConsider_def)
  from a have el: "\<And>cr. cr \<in> set ?W \<Longrightarrow>
       \<exists>i cs. checkSuiteId cr = Some i \<and>
          fetchCheckSuite rt (repository p) i = Fulfilled (Some cs) \<and> id_cs cs = i \<and>
          rerequestable cs \<and>
          js_gt (Date_parse rt (created_at cs)) (offsetFromNow rt (- 30) Days) \<and>
          status cs = Completed"
    by auto
  have "\<forall>i \<in> set (fetchedIds (checkSuiteIds p)). \<exists>r. fetchCheckSuite rt (repository p) i = Fulfilled r"
  proof
    fix i assume "i \<in> set (fetchedIds (checkSuiteIds p))"
    then obtain cr where "cr \<in> set ?W" "checkSuiteId cr = Some i"
      by (auto simp: fetchedIds_checkSuiteIds W)
    with el [of cr] show "\<exists>r. fetchCheckSuite rt (repository p) i = Fulfilled r" by auto
  qed
  then obtain css where css: "Promise_all (checkSuitesPromises rt p) = Fulfilled css"
    using checkSuitesPromises_Fulfilled by blast
  have keep: "\<exists>i. checkSuiteId cr = Some i \<and> i \<in> set (rerequestableCheckSuiteIds rt css)"
    if "cr \<in> set ?W" for cr
  proof -
    from el [OF that] obtain i cs where i: "checkSuiteId cr = Some i"
      and f: "fetchCheckSuite rt (repository p) i = Fulfilled (Some cs)"
      and e: "id_cs cs = i" "rerequestable cs"
        "js_gt (Date_parse rt (created_at cs)) (offsetFromNow rt (- 30) Days)" "status cs = Completed"
      by blast
    from that i have "i \<in> set (fetchedIds (checkSuiteIds p))"
      by (auto simp: fetchedIds_checkSuiteIds W)
    with f have "Some cs \<in> set css" using fetched_suite_member [OF css] by blast
    with e have "i \<in> set (rerequestableCheckSuiteIds rt css)"
      using rerequestableCheckSuiteIds_member by blast
    with i show ?thesis by simp
  qed
  have ft: "filter (\<lambda>cr. \<exists>i. checkSuiteId cr = Some i \<and>
      i \<in> set (rerequestableCheckSuiteIds rt css)) ?W = ?W"
    by (rule filter_True) (use keep in blast)
  have "rerunnable (classify rt p css s) = ?W"
    unfolding rerunnable_classify W by (rule ft)
  with a css show "\<exists>s'. determineRerunnability rt p s = Fulfilled s' \<and> length (rerunnable s') = 3"
    by (simp add: determineRerunnability_def)
qed


theorem C4_rerunnable_of_working_subset_witness:
  "(failedOnly (exampleProps True fiveRuns) \<and> length (checkRuns (exampleProps True fiveRuns)) = 5 \<and>
    length (filter (\<lambda>cr. conclusion cr = Some Failure) (checkRuns (exampleProps True fiveRuns))) = 3 \<and>
    length (filter (\<lambda>cr. conclusion cr = Some Success) (checkRuns (exampleProps True fiveRuns))) = 2 \<and>
    list_all (\<lambda>cr. conclusion cr \<noteq> Some Failure \<or>
       (\<exists>i cs. checkSuiteId cr = Some i \<and>
          fetchCheckSuite exampleRuntime (repository (exampleProps True fiveRuns)) i = Fulfilled (Some cs) \<and>
          id_cs cs = i \<and> rerequestable cs \<and>
          js_gt (Date_parse exampleRuntime (created_at cs)) (offsetFromNow exampleRuntime (- 30) Days) \<and>
          status cs = Completed)) (checkRuns (exampleProps True fiveRuns))) \<and>
   (\<exists>s'. determineRerunnability exampleRuntime (exampleProps True fiveRuns) initialState = Fulfilled s' \<and>
      length (rerunnable s') = 3) \<and>
   determineRerunnability exampleRuntime (exampleProps True fiveRuns) initialState =
     Fulfilled \<lparr>loadingCheckSuites = False, loadingRerun = False,
       rerunnable = [exampleRun 1 Failure (Some 1), exampleRun 3 Failure (Some 1),
                     exampleRun 4 Failure (Some 2)],
       nonRerunnable = [exampleRun 1 Failure (Some 1), exampleRun 2 Success (Some 3),
                        exampleRun 3 Failure (Some 1), exampleRun 4 Failure (Some 2),
                        exampleRun 5 Success None]\<rparr>"
proof -
  have e: "\<exists>cs. exampleFetch ''desktop'' i = Fulfilled (Some cs) \<and>
          id_cs cs = i \<and> rerequestable cs \<and>
          js_gt (exampleParse (created_at cs)) (offsetFromNow exampleRuntime (- 30) Days) \<and>
          status cs = Completed" if "i = 1 \<or> i = 2" for i
    using that by (auto simp: example_defs offsetFromNow_def)
  have a: "failedOnly (exampleProps True fiveRuns) \<and> length (checkRuns (exampleProps True fiveRuns)) = 5 \<and>
    length (filter (\<lambda>cr. conclusion cr = Some Failure) (checkRuns (exampleProps True fiveRuns))) = 3 \<and>
    length (filter (\<lambda>cr. conclusion cr = Some Success) (checkRuns (exampleProps True fiveRuns))) = 2 \<and>
    list_all (\<lambda>cr. conclusion cr \<noteq> Some Failure \<or>
       (\<exists>i cs. checkSuiteId cr = Some i \<and>
          fetchCheckSuite exampleRuntime (repository (exampleProps True fiveRuns)) i = Fulfilled (Some cs) \<and>
          id_cs cs = i \<and> rerequestable cs \<and>
          js_gt (Date_parse exampleRuntime (created_at cs)) (offsetFromNow exampleRuntime (- 30) Days) \<and>
          status cs = Completed)) (checkRuns (exampleProps True fiveRuns))"
    using e [of 1] e [of 2]
    by (simp add: exampleProps_def fiveRuns_def exampleRun_def exampleRuntime_def)
  then have a': "failedOnly (exampleProps True fiveRuns) \<and> length (checkRuns (exampleProps True fiveRuns)) = 5 \<and>
    length (filter (\<lambda>cr. conclusion cr = Some Failure) (checkRuns (exampleProps True fiveRuns))) = 3 \<and>
    length (filter (\<lambda>cr. conclusion cr = Some Success) (checkRuns (exampleProps True fiveRuns))) = 2 \<and>
    (\<forall>cr \<in> set (checkRuns (exampleProps True fiveRuns)). conclusion cr = Some Failure \<longrightarrow>
       (\<exists>i cs. checkSuiteId cr = Some i \<and>
          fetchCheckSuite exampleRuntime (repository (exampleProps True fiveRuns)) i = Fulfilled (Some cs) \<and>
          id_cs cs = i \<and> rerequestable cs \<and>
          js_gt (Date_parse exampleRuntime (created_at cs)) (offsetFromNow exampleRuntime (- 30) Days) \<and>
          status cs = Completed))"
    unfolding list_all_iff by blast
  have b: "\<exists>s'. determineRerunnability exampleRuntime (exampleProps True fiveRuns) initialState = Fulfilled s' \<and>
      length (rerunnable s') = 3"
    using C4_rerunnable_of_working_subset [of exampleRuntime "exampleProps True fiveRuns" initialState] a' by blast
  have c: "determineRerunnability exampleRuntime (exampleProps True fiveRuns) initialState =
     Fulfilled \<lparr>loadingCheckSuites = False, loadingRerun = False,
       rerunnable = [exampleRun 1 Failure (Some 1), exampleRun 3 Failure (Some 1),
                     exampleRun 4 Failure (Some 2)],
       nonRerunnable = [exampleRun 1 Failure (Some 1), exampleRun 2 Success (Some 3),
                        exampleRun 3 Failure (Some 1), exampleRun 4 Failure (Some 2),
                        exampleRun 5 Success None]\<rparr>"
    by (simp add: classification_defs example_defs)
  from a b c show ?thesis by blast
qed

subsection \<open>The two lists without failedOnly\<close>

text \<open>
  Claim C10. When \<^verbatim>\<open>failedOnly\<close> is false and the classification completes, a run
  of the input is in \<^verbatim>\<open>rerunnable\<close> exactly when it is not in
  \<^verbatim>\<open>nonRerunnable\<close>: the two lists are disjoint, together they hold every run of the
  input, and they split the input list (as multisets).
\<close>

theorem C10_complement_without_failedOnly:
  assumes "\<not> failedOnly p" and "determineRerunnability rt p s = Fulfilled s'"
  shows "(\<forall>cr. cr \<in> set (checkRuns p) \<longrightarrow>
            (cr \<in> set (rerunnable s') \<longleftrightarrow> cr \<notin> set (nonRerunnable s'))) \<and>
         set (rerunnable s') \<inter> set (nonRerunnable s') = {} \<and>
         set (rerunnable s') \<union> set (nonRerunnable s') = set (checkRuns p) \<and>
         mset (rerunnable s') + mset (nonRerunnable s') = mset (checkRuns p)"
proof -
  from assms(2) obtain css where s': "s' = classify rt p css s"
    by (auto simp: determineRerunnability_Fulfilled)
  let ?E = "set (rerequestableCheckSuiteIds rt css)"
  let ?P = "\<lambda>cr. \<exists>i. checkSuiteId cr = Some i \<and> i \<in> ?E"
  have r: "rerunnable s' = filter ?P (checkRuns p)"
    using assms(1) by (simp add: s' rerunnable_classify checkRunsToConsider_def)
  have "\<And>cr. (checkSuiteId cr = None \<or> (\<exists>i. checkSuiteId cr = Some i \<and> i \<notin> ?E) \<or> (failedOnly p \<and> conclusion cr = Some Failure)) \<longleftrightarrow> \<not> ?P cr"
    using assms(1) by auto
  then have n: "nonRerunnable s' = filter (\<lambda>cr. \<not> ?P cr) (checkRuns p)"
    unfolding s' nonRerunnable_classify by (intro filter_cong refl)
  have m: "mset (filter P xs) + mset (filter (\<lambda>x. \<not> P x) xs) = mset xs"
    for P and xs :: "IRefCheck list"
    by (induction xs) simp_all
  have "set (filter ?P (checkRuns p)) \<inter> set (filter (\<lambda>cr. \<not> ?P cr) (checkRuns p)) = {}"
    by auto
  moreover have "set (filter ?P (checkRuns p)) \<union> set (filter (\<lambda>cr. \<not> ?P cr) (checkRuns p)) =
      set (checkRuns p)"
    by auto
  moreover have "\<forall>cr. cr \<in> set (checkRuns p) \<longrightarrow>
      (cr \<in> set (filter ?P (checkRuns p)) \<longleftrightarrow> cr \<notin> set (filter (\<lambda>cr. \<not> ?P cr) (checkRuns p)))"
    by auto
  ultimately show ?thesis unfolding r n using m [of ?P "checkRuns p"] by blast
qed

theorem C10_complement_without_failedOnly_witness:
  "\<not> failedOnly (exampleProps False mixedRuns) \<and>
   determineRerunnability exampleRuntime (exampleProps False mixedRuns) initialState =
     Fulfilled \<lparr>loadingCheckSuites = False, loadingRerun = False,
       rerunnable = [exampleRun 1 Failure (Some 1), exampleRun 3 Success (Some 1)],
       nonRerunnable = [exampleRun 2 Success None, exampleRun 4 Failure (Some 6)]\<rparr> \<and>
   set [exampleRun 1 Failure (Some 1), exampleRun 3 Success (Some 1)] \<inter>
     set [exampleRun 2 Success None, exampleRun 4 Failure (Some 6)] = {} \<and>
   set [exampleRun 1 Failure (Some 1), exampleRun 3 Success (Some 1)] \<union>
     set [exampleRun 2 Success None, exampleRun 4 Failure (Some 6)] =
     set (checkRuns (exampleProps False mixedRuns)) \<and>
   mset [exampleRun 1 Failure (Some 1), exampleRun 3 Success (Some 1)] +
     mset [exampleRun 2 Success None, exampleRun 4 Failure (Some 6)] =
     mset (checkRuns (exampleProps False mixedRuns))"
proof -
  have f: "\<not> failedOnly (exampleProps False mixedRuns)"
    by (simp add: exampleProps_def)
  have h: "determineRerunnability exampleRuntime (exampleProps False mixedRuns) initialState =
     Fulfilled \<lparr>loadingCheckSuites = False, loadingRerun = False,
       rerunnable = [exampleRun 1 Failure (Some 1), exampleRun 3 Success (Some 1)],
       nonRerunnable = [exampleRun 2 Success None, exampleRun 4 Failure (Some 6)]\<rparr>"
    by (simp add: classification_defs example_defs)
  from C10_complement_without_failedOnly [OF f h] f h show ?thesis by simp
qed

subsection \<open>The two lists with failedOnly\<close>

text \<open>
  Claim C2 says that every run of the input is in exactly one of the two lists, whatever
  \<^verbatim>\<open>failedOnly\<close> is. With \<^verbatim>\<open>failedOnly\<close> set, the third disjunct of line 130
  puts every failed run into \<^verbatim>\<open>nonRerunnable\<close>, also the failed runs of eligible
  suites, which are in \<^verbatim>\<open>rerunnable\<close>; and a run that has not failed and whose suite
  is eligible is in neither list. The evaluation below is at \<open>mixedRuns\<close>: run 1 (a
  failure of the eligible suite 1) is in both lists, run 3 (a success of suite 1) in
  neither.
\<close>

theorem C2_failed_run_in_both_lists:
  "determineRerunnability exampleRuntime (exampleProps True mixedRuns) initialState =
     Fulfilled \<lparr>loadingCheckSuites = False, loadingRerun = False,
       rerunnable = [exampleRun 1 Failure (Some 1)],
       nonRerunnable =
         [exampleRun 1 Failure (Some 1), exampleRun 2 Success None, exampleRun 4 Failure (Some 6)]\<rparr> \<and>
   exampleRun 1 Failure (Some 1) \<in> set (checkRuns (exampleProps True mixedRuns)) \<and>
   exampleRun 1 Failure (Some 1) \<in> set [exampleRun 1 Failure (Some 1)] \<and>
   exampleRun 1 Failure (Some 1) \<in>
     set [exampleRun 1 Failure (Some 1), exampleRun 2 Success None, exampleRun 4 Failure (Some 6)] \<and>
   exampleRun 3 Success (Some 1) \<in> set (checkRuns (exampleProps True mixedRuns)) \<and>
   exampleRun 3 Success (Some 1) \<notin> set [exampleRun 1 Failure (Some 1)] \<and>
   exampleRun 3 Success (Some 1) \<notin>
     set [exampleRun 1 Failure (Some 1), exampleRun 2 Success None, exampleRun 4 Failure (Some 6)]"
  by (simp add: classification_defs example_defs)


subsection \<open>Fetches that fail\<close>





subsection \<open>The order in which the fetches settle\<close>

text \<open>
  Claim C9. One fetch is issued for each distinct non-null suite id of the working subset.
  The join gives the same result in whatever order the fetches settle: for two orders that
  both contain every fetch that settles, \<open>Promise_all_settling\<close> agrees, and agrees with
  \<open>Promise_all\<close>. And the two lists do not depend on the order of the fetched suites:
  two lists of results that are permutations of each other give the same state, since the
  eligible ids are only ever tested for membership.
\<close>

theorem C9_settling_order_irrelevant:
  "distinct (fetchedIds (checkSuiteIds p)) \<and>
   set (fetchedIds (checkSuiteIds p)) =
     {i. \<exists>cr \<in> set (checkRunsToConsider p). checkSuiteId cr = Some i} \<and>
   calls (construct p) = map (Call_fetchCheckSuite (repository p)) (fetchedIds (checkSuiteIds p)) \<and>
   ((\<forall>k < length (checkSuitesPromises rt p).
        checkSuitesPromises rt p ! k \<noteq> Pending \<longrightarrow> k \<in> set order1 \<and> k \<in> set order2) \<longrightarrow>
      Promise_all_settling (checkSuitesPromises rt p) order1
          (replicate (length (checkSuitesPromises rt p)) None) =
        Promise_all_settling (checkSuitesPromises rt p) order2
          (replicate (length (checkSuitesPromises rt p)) None) \<and>
      Promise_all_settling (checkSuitesPromises rt p) order1
          (replicate (length (checkSuitesPromises rt p)) None) =
        Promise_all (checkSuitesPromises rt p)) \<and>
   (mset css = mset css' \<longrightarrow>
      classify rt p css s = classify rt p css' s \<and>
      rerunnable (classify rt p css s) = rerunnable (classify rt p css' s) \<and>
      nonRerunnable (classify rt p css s) = nonRerunnable (classify rt p css' s))"
proof (intro conjI impI)
  show "distinct (fetchedIds (checkSuiteIds p))"
    by (simp add: distinct_fetchedIds checkSuiteIds_def distinct_new_Set)
  show "set (fetchedIds (checkSuiteIds p)) =
     {i. \<exists>cr \<in> set (checkRunsToConsider p). checkSuiteId cr = Some i}"
    using fetchedIds_checkSuiteIds [of _ p] by blast
  show "calls (construct p) =
      map (Call_fetchCheckSuite (repository p)) (fetchedIds (checkSuiteIds p))"
    by (simp add: construct_def)
next
  assume a: "\<forall>k < length (checkSuitesPromises rt p).
        checkSuitesPromises rt p ! k \<noteq> Pending \<longrightarrow> k \<in> set order1 \<and> k \<in> set order2"
  then have 1: "Promise_all_settling (checkSuitesPromises rt p) order1
          (replicate (length (checkSuitesPromises rt p)) None) =
        Promise_all (checkSuitesPromises rt p)"
    by (intro Promise_all_settling_Promise_all) blast
  from a have 2: "Promise_all_settling (checkSuitesPromises rt p) order2
          (replicate (length (checkSuitesPromises rt p)) None) =
        Promise_all (checkSuitesPromises rt p)"
    by (intro Promise_all_settling_Promise_all) blast
  from 1 2 show "Promise_all_settling (checkSuitesPromises rt p) order1
          (replicate (length (checkSuitesPromises rt p)) None) =
        Promise_all_settling (checkSuitesPromises rt p) order2
          (replicate (length (checkSuitesPromises rt p)) None)"
    by simp
  from 1 show "Promise_all_settling (checkSuitesPromises rt p) order1
          (replicate (length (checkSuitesPromises rt p)) None) =
        Promise_all (checkSuitesPromises rt p)" .
next
  assume "mset css = mset css'"
  then have "set css = set css'" by (rule mset_eq_setD)
  then have "set (rerequestableCheckSuiteIds rt css) = set (rerequestableCheckSuiteIds rt css')"
    by (auto simp: rerequestableCheckSuiteIds_member)
  then have c: "classify rt p css s = classify rt p css' s" by (rule classify_set_cong)
  from c show "classify rt p css s = classify rt p css' s" .
  from c show "rerunnable (classify rt p css s) = rerunnable (classify rt p css' s)" by simp
  from c show "nonRerunnable (classify rt p css s) = nonRerunnable (classify rt p css' s)" by simp
qed

theorem C9_settling_order_irrelevant_witness:
  "length (checkSuitesPromises exampleRuntime (exampleProps False mixedRuns)) = 2 \<and>
   list_all (\<lambda>k. k \<in> set [0, 1] \<and> k \<in> set [1, 0::nat]) [0, 1] \<and>
   Promise_all_settling (checkSuitesPromises exampleRuntime (exampleProps False mixedRuns)) [0, 1]
       (replicate (length (checkSuitesPromises exampleRuntime (exampleProps False mixedRuns))) None) =
     Promise_all_settling (checkSuitesPromises exampleRuntime (exampleProps False mixedRuns)) [1, 0]
       (replicate (length (checkSuitesPromises exampleRuntime (exampleProps False mixedRuns))) None) \<and>
   Promise_all_settling (checkSuitesPromises exampleRuntime (exampleProps False mixedRuns)) [1, 0]
       (replicate (length (checkSuitesPromises exampleRuntime (exampleProps False mixedRuns))) None) =
     Fulfilled [Some (exampleSuite 1),
                Some ((exampleSuite 6)\<lparr>created_at := ''2023-10-15T22:13:20Z''\<rparr>)] \<and>
   mset [Some (exampleSuite 1), Some ((exampleSuite 6)\<lparr>created_at := ''2023-10-15T22:13:20Z''\<rparr>)] =
     mset [Some ((exampleSuite 6)\<lparr>created_at := ''2023-10-15T22:13:20Z''\<rparr>), Some (exampleSuite 1)] \<and>
   classify exampleRuntime (exampleProps False mixedRuns)
       [Some (exampleSuite 1), Some ((exampleSuite 6)\<lparr>created_at := ''2023-10-15T22:13:20Z''\<rparr>)]
       initialState =
     classify exampleRuntime (exampleProps False mixedRuns)
       [Some ((exampleSuite 6)\<lparr>created_at := ''2023-10-15T22:13:20Z''\<rparr>), Some (exampleSuite 1)]
       initialState"
proof -
  let ?p = "exampleProps False mixedRuns"
  let ?ps = "checkSuitesPromises exampleRuntime ?p"
  let ?s6 = "(exampleSuite 6)\<lparr>created_at := ''2023-10-15T22:13:20Z''\<rparr>"
  have ps: "?ps = [Fulfilled (Some (exampleSuite 1)), Fulfilled (Some ?s6)]"
    by (simp add: classification_defs example_defs)
  then have len: "length ?ps = 2" by simp
  have la: "list_all (\<lambda>k. k \<in> set [0, 1] \<and> k \<in> set [1, 0::nat]) [0, 1]" by simp
  have h: "\<forall>k < length ?ps. ?ps ! k \<noteq> Pending \<longrightarrow> k \<in> set [0, 1] \<and> k \<in> set [1, 0]"
    unfolding len by (auto simp: less_Suc_eq numeral_2_eq_2)
  have m: "mset [Some (exampleSuite 1), Some ?s6] = mset [Some ?s6, Some (exampleSuite 1)]"
    by simp
  note t = C9_settling_order_irrelevant [of ?p exampleRuntime "[0, 1]" "[1, 0]"
      "[Some (exampleSuite 1), Some ?s6]" "[Some ?s6, Some (exampleSuite 1)]" initialState]
  from t h have e: "Promise_all_settling ?ps [0, 1] (replicate (length ?ps) None) =
      Promise_all_settling ?ps [1, 0] (replicate (length ?ps) None)"
    by blast
  have v: "Promise_all_settling ?ps [1, 0] (replicate (length ?ps) None) =
      Fulfilled [Some (exampleSuite 1), Some ?s6]"
    unfolding ps by (simp add: numeral_2_eq_2)
  from t m have c: "classify exampleRuntime ?p [Some (exampleSuite 1), Some ?s6] initialState =
      classify exampleRuntime ?p [Some ?s6, Some (exampleSuite 1)] initialState"
    by blast
  from len la e v m c show ?thesis by blast
qed


subsection \<open>Submission\<close>

text \<open>
  Claim C6. In every component reached from construction: the turn of \<^verbatim>\<open>onSubmit\<close>
  that the OK button starts calls \<^verbatim>\<open>rerequestCheckSuites\<close> with the runs the state
  holds as \<^verbatim>\<open>rerunnable\<close> and with \<^verbatim>\<open>failedOnly\<close> of the props; the refresh
  is called in the turn in which an awaited submission resolves and in no other turn, for
  \<^verbatim>\<open>prRef\<close> of the props and the same runs as the submission made before; the turn
  in which the refresh resolves calls \<^verbatim>\<open>recordRerunChecks\<close> and then
  \<^verbatim>\<open>onDismissed\<close>, with nothing awaited between them. The three turns one after
  the other make exactly these calls in this order.
\<close>

theorem C6_submission_sequence:
  assumes "run rt p es = Some i"
  shows
   "(\<forall>i'. step rt p OkClicked i = Some i' \<longrightarrow>
        calls i' = calls i @
          [Call_setState ((this_state i)\<lparr>loadingRerun := True\<rparr>),
           Call_rerequestCheckSuites (repository p) (rerunnable (this_state i)) (failedOnly p)]) \<and>
    (\<forall>i'. step rt p RerequestResolved i = Some i' \<longrightarrow>
        calls i' = calls i @
          [Call_manualRefreshSubscription (repository p) (prRef p) (rerunnable (this_state i))] \<and>
        Call_rerequestCheckSuites (repository p) (rerunnable (this_state i)) (failedOnly p)
          \<in> set (calls i)) \<and>
    (\<forall>e i'. step rt p e i = Some i' \<and> e \<noteq> RerequestResolved \<longrightarrow>
        filter isRefresh (calls i') = filter isRefresh (calls i)) \<and>
    (\<forall>i'. step rt p RefreshResolved i = Some i' \<longrightarrow>
        calls i' = calls i @ [Call_recordRerunChecks, Call_onDismissed]) \<and>
    (\<forall>j. run_from rt p [OkClicked, RerequestResolved, RefreshResolved] i = Some j \<longrightarrow>
        calls j = calls i @
          [Call_setState ((this_state i)\<lparr>loadingRerun := True\<rparr>),
           Call_rerequestCheckSuites (repository p) (rerunnable (this_state i)) (failedOnly p),
           Call_manualRefreshSubscription (repository p) (prRef p) (rerunnable (this_state i)),
           Call_recordRerunChecks, Call_onDismissed])"
proof -
  from assms have inv: "component_inv p i" by (rule inv_run)
  have a: "\<forall>i'. step rt p OkClicked i = Some i' \<longrightarrow>
        calls i' = calls i @
          [Call_setState ((this_state i)\<lparr>loadingRerun := True\<rparr>),
           Call_rerequestCheckSuites (repository p) (rerunnable (this_state i)) (failedOnly p)]"
    by (auto simp: onSubmit_start_def Let_def split: if_splits)
  have b: "\<forall>i'. step rt p RerequestResolved i = Some i' \<longrightarrow>
        calls i' = calls i @
          [Call_manualRefreshSubscription (repository p) (prRef p) (rerunnable (this_state i))] \<and>
        Call_rerequestCheckSuites (repository p) (rerunnable (this_state i)) (failedOnly p)
          \<in> set (calls i)"
  proof (intro allI impI)
    fix i'
    assume st: "step rt p RerequestResolved i = Some i'"
    then have pos: "awaitingRerequest i \<noteq> 0" and i': "i' = onSubmit_afterRerequest p i"
      by (simp_all split: if_splits)
    from inv pos have "filter isRerequest (calls i) \<noteq> []"
      by (auto simp: component_inv_def)
    then obtain c where c: "c \<in> set (calls i)" "isRerequest c"
      by (auto simp: filter_empty_conv)
    with inv have "c = Call_rerequestCheckSuites (repository p) (rerunnable (this_state i)) (failedOnly p)"
      unfolding component_inv_def by blast
    with c i' show "calls i' = calls i @
          [Call_manualRefreshSubscription (repository p) (prRef p) (rerunnable (this_state i))] \<and>
        Call_rerequestCheckSuites (repository p) (rerunnable (this_state i)) (failedOnly p)
          \<in> set (calls i)"
      by (simp add: onSubmit_afterRerequest_def)
  qed
  have c: "\<forall>e i'. step rt p e i = Some i' \<and> e \<noteq> RerequestResolved \<longrightarrow>
        filter isRefresh (calls i') = filter isRefresh (calls i)"
  proof (intro allI impI)
    fix e i'
    assume "step rt p e i = Some i' \<and> e \<noteq> RerequestResolved"
    then have st: "step rt p e i = Some i'" and ne: "e \<noteq> RerequestResolved" by simp_all
    show "filter isRefresh (calls i') = filter isRefresh (calls i)"
    proof (cases e)
      case FetchesSettled
      with st show ?thesis
        by (cases "determineRerunnability rt p (this_state i)") (auto split: if_splits)
    next
      case OkClicked
      with st show ?thesis by (auto simp: onSubmit_start_def Let_def split: if_splits)
    next
      case RerequestResolved
      with ne show ?thesis by simp
    next
      case RerequestRejected
      with st show ?thesis by (auto split: if_splits)
    next
      case RefreshResolved
      with st show ?thesis by (auto simp: onSubmit_afterRefresh_def split: if_splits)
    next
      case RefreshRejected
      with st show ?thesis by (auto split: if_splits)
    next
      case Dismiss
      with st show ?thesis by auto
    qed
  qed
  have d: "\<forall>i'. step rt p RefreshResolved i = Some i' \<longrightarrow>
        calls i' = calls i @ [Call_recordRerunChecks, Call_onDismissed]"
    by (auto simp: onSubmit_afterRefresh_def split: if_splits)
  have e: "\<forall>j. run_from rt p [OkClicked, RerequestResolved, RefreshResolved] i = Some j \<longrightarrow>
        calls j = calls i @
          [Call_setState ((this_state i)\<lparr>loadingRerun := True\<rparr>),
           Call_rerequestCheckSuites (repository p) (rerunnable (this_state i)) (failedOnly p),
           Call_manualRefreshSubscription (repository p) (prRef p) (rerunnable (this_state i)),
           Call_recordRerunChecks, Call_onDismissed]"
  proof (intro allI impI)
    fix j
    assume r: "run_from rt p [OkClicked, RerequestResolved, RefreshResolved] i = Some j"
    then obtain i1 where s1: "step rt p OkClicked i = Some i1"
      and r1: "run_from rt p [RerequestResolved, RefreshResolved] i1 = Some j"
      by (cases "step rt p OkClicked i") simp_all
    from r1 obtain i2 where s2: "step rt p RerequestResolved i1 = Some i2"
      and r2: "run_from rt p [RefreshResolved] i2 = Some j"
      by (cases "step rt p RerequestResolved i1") simp_all
    from r2 have s3: "step rt p RefreshResolved i2 = Some j"
      by (cases "step rt p RefreshResolved i2") simp_all
    from s1 have i1: "i1 = onSubmit_start p i" by (simp split: if_splits)
    from s2 have i2: "i2 = onSubmit_afterRerequest p i1" by (simp split: if_splits)
    from s3 have j: "j = onSubmit_afterRefresh i2" by (simp split: if_splits)
    show "calls j = calls i @
          [Call_setState ((this_state i)\<lparr>loadingRerun := True\<rparr>),
           Call_rerequestCheckSuites (repository p) (rerunnable (this_state i)) (failedOnly p),
           Call_manualRefreshSubscription (repository p) (prRef p) (rerunnable (this_state i)),
           Call_recordRerunChecks, Call_onDismissed]"
      unfolding j i2 i1
      by (simp add: onSubmit_start_def onSubmit_afterRerequest_def onSubmit_afterRefresh_def Let_def)
  qed
  from a b c d e show ?thesis by blast
qed


theorem C6_submission_sequence_witness:
  "run exampleRuntime (exampleProps False nullFetchRuns) [FetchesSettled] = Some readyComponent \<and>
   (\<exists>j. run_from exampleRuntime (exampleProps False nullFetchRuns)
          [OkClicked, RerequestResolved, RefreshResolved] readyComponent = Some j \<and>
        calls j =
          [Call_fetchCheckSuite ''desktop'' 4, Call_fetchCheckSuite ''desktop'' 1,
           Call_setState readyState,
           Call_setState (readyState\<lparr>loadingRerun := True\<rparr>),
           Call_rerequestCheckSuites ''desktop'' [exampleRun 2 Success (Some 1)] False,
           Call_manualRefreshSubscription ''desktop'' ''refs/pull/7/head''
             [exampleRun 2 Success (Some 1)],
           Call_recordRerunChecks, Call_onDismissed])"
proof -
  let ?p = "exampleProps False nullFetchRuns"
  note h = run_ready
  obtain j where j: "run_from exampleRuntime ?p
      [OkClicked, RerequestResolved, RefreshResolved] readyComponent = Some j"
    by (simp add: event_loop_defs)
  from C6_submission_sequence [OF h] j have "calls j = calls readyComponent @
          [Call_setState ((this_state readyComponent)\<lparr>loadingRerun := True\<rparr>),
           Call_rerequestCheckSuites (repository ?p) (rerunnable (this_state readyComponent))
             (failedOnly ?p),
           Call_manualRefreshSubscription (repository ?p) (prRef ?p)
             (rerunnable (this_state readyComponent)),
           Call_recordRerunChecks, Call_onDismissed]"
    by blast
  then have "calls j =
          [Call_fetchCheckSuite ''desktop'' 4, Call_fetchCheckSuite ''desktop'' 1,
           Call_setState readyState,
           Call_setState (readyState\<lparr>loadingRerun := True\<rparr>),
           Call_rerequestCheckSuites ''desktop'' [exampleRun 2 Success (Some 1)] False,
           Call_manualRefreshSubscription ''desktop'' ''refs/pull/7/head''
             [exampleRun 2 Success (Some 1)],
           Call_recordRerunChecks, Call_onDismissed]"
    by (simp add: readyComponent_def readyState_def exampleProps_def)
  with h j show ?thesis by blast
qed


subsection \<open>The OK button\<close>

text \<open>
  Claim C7. In every component reached from construction the OK button is disabled
  exactly when \<^verbatim>\<open>rerunnable\<close> is empty, which it is while the classification is
  loading or suspended; with an empty list the click does not reach \<^verbatim>\<open>onSubmit\<close>;
  a click that does reach it starts from a state that is not loading and has a run to
  re-run; and no submission ever made was for an empty list.
\<close>

theorem C7_confirm_needs_rerunnable:
  assumes "run rt p es = Some i"
  shows "(okButtonDisabled (render (this_state i)) \<longleftrightarrow> rerunnable (this_state i) = []) \<and>
         (loadingCheckSuites (this_state i) \<longrightarrow> okButtonDisabled (render (this_state i))) \<and>
         (classifying i \<longrightarrow> okButtonDisabled (render (this_state i))) \<and>
         (rerunnable (this_state i) = [] \<longrightarrow> step rt p OkClicked i = None) \<and>
         (\<forall>i'. step rt p OkClicked i = Some i' \<longrightarrow>
            rerunnable (this_state i) \<noteq> [] \<and> \<not> loadingCheckSuites (this_state i) \<and>
            \<not> classifying i) \<and>
         (\<forall>repo r f. Call_rerequestCheckSuites repo r f \<in> set (calls i) \<longrightarrow> r \<noteq> [])"
proof -
  from assms have inv: "component_inv p i" by (rule inv_run)
  have d: "okButtonDisabled (render (this_state i)) \<longleftrightarrow> rerunnable (this_state i) = []"
    by (simp add: render_def)
  have l: "rerunnable (this_state i) = []" if "loadingCheckSuites (this_state i)"
    using inv that by (rule inv_loading)
  have c: "rerunnable (this_state i) = []" if "classifying i"
    using inv_classifying(1) [OF inv that] by (simp add: initialState_def)
  have n: "step rt p OkClicked i = None" if "rerunnable (this_state i) = []"
    using that by (simp add: render_def)
  have s: "rerunnable (this_state i) \<noteq> [] \<and> \<not> loadingCheckSuites (this_state i) \<and>
            \<not> classifying i" if "step rt p OkClicked i = Some i'" for i'
  proof -
    from that n have "rerunnable (this_state i) \<noteq> []" by auto
    with l c show ?thesis by blast
  qed
  have r: "r \<noteq> []" if m: "Call_rerequestCheckSuites repo r f \<in> set (calls i)" for repo r f
  proof -
    have "isRerequest (Call_rerequestCheckSuites repo r f)" by simp
    from inv_rerequest [OF inv m this] show ?thesis by simp
  qed
  show ?thesis
  proof (intro conjI allI impI)
    show "okButtonDisabled (render (this_state i)) \<longleftrightarrow> rerunnable (this_state i) = []"
      by (rule d)
    show "okButtonDisabled (render (this_state i))" if "loadingCheckSuites (this_state i)"
      using l [OF that] d by simp
    show "okButtonDisabled (render (this_state i))" if "classifying i"
      using c [OF that] d by simp
    show "step rt p OkClicked i = None" if "rerunnable (this_state i) = []"
      using that by (rule n)
    show "rerunnable (this_state i) \<noteq> []" if "step rt p OkClicked i = Some i'" for i'
      using s [OF that] by simp
    show "\<not> loadingCheckSuites (this_state i)" if "step rt p OkClicked i = Some i'" for i'
      using s [OF that] by simp
    show "\<not> classifying i" if "step rt p OkClicked i = Some i'" for i'
      using s [OF that] by simp
    show "r \<noteq> []" if "Call_rerequestCheckSuites repo r f \<in> set (calls i)" for repo r f
      using that by (rule r)
  qed
qed

theorem C7_confirm_needs_rerunnable_witness:
  "run exampleRuntime (exampleProps False nullFetchRuns) [] =
     Some (construct (exampleProps False nullFetchRuns)) \<and>
   loadingCheckSuites (this_state (construct (exampleProps False nullFetchRuns))) \<and>
   okButtonDisabled (render (this_state (construct (exampleProps False nullFetchRuns)))) \<and>
   step exampleRuntime (exampleProps False nullFetchRuns) OkClicked
     (construct (exampleProps False nullFetchRuns)) = None \<and>
   run exampleRuntime (exampleProps False nullFetchRuns) [FetchesSettled, OkClicked] =
     Some (onSubmit_start (exampleProps False nullFetchRuns) readyComponent) \<and>
   Call_rerequestCheckSuites ''desktop'' [exampleRun 2 Success (Some 1)] False
     \<in> set (calls (onSubmit_start (exampleProps False nullFetchRuns) readyComponent)) \<and>
   [exampleRun 2 Success (Some 1)] \<noteq> []"
proof -
  let ?p = "exampleProps False nullFetchRuns"
  have h0: "run exampleRuntime ?p [] = Some (construct ?p)"
    by (simp add: run_def)
  have l0: "loadingCheckSuites (this_state (construct ?p))"
    by (simp add: construct_def initialState_def)
  note t0 = C7_confirm_needs_rerunnable [OF h0]
  from t0 l0 have d0: "okButtonDisabled (render (this_state (construct ?p)))" by blast
  from t0 d0 have n0: "step exampleRuntime ?p OkClicked (construct ?p) = None" by blast
  have h1: "run exampleRuntime ?p [FetchesSettled, OkClicked] =
      Some (onSubmit_start ?p readyComponent)"
    by (simp add: event_loop_defs classification_defs example_defs)
  have m: "Call_rerequestCheckSuites ''desktop'' [exampleRun 2 Success (Some 1)] False
     \<in> set (calls (onSubmit_start ?p readyComponent))"
    by (simp add: event_loop_defs exampleProps_def)
  from C7_confirm_needs_rerunnable [OF h1] m have ne: "[exampleRun 2 Success (Some 1)] \<noteq> []" by blast
  from h0 l0 d0 n0 h1 m ne show ?thesis by blast
qed

subsection \<open>Dismissal while the classification is in flight\<close>





end
